theory Spec2Isabelle
  imports Complex_Main "HOL-Library.Word"
begin

section \<open>Errors and NumPy primitives\<close>

text \<open>
  The program is \<^verbatim>\<open>fix_pixel_art.py\<close>. Exceptions are values: every function that can
  raise returns \<open>error + 'a\<close>, \<open>Inl\<close> carrying the exception. Only two exception classes
  occur on the paths modelled here: Python's \<^verbatim>\<open>ZeroDivisionError\<close> (integer \<^verbatim>\<open>//\<close> by
  zero, float \<^verbatim>\<open>/\<close> by zero) and \<^verbatim>\<open>ValueError\<close> (NumPy shape errors, \<^verbatim>\<open>argmax\<close> of an
  empty array, \<^verbatim>\<open>math.sqrt\<close> of a negative number).
\<close>

datatype error = ZeroDivisionError | ValueError

text \<open>
  \<^verbatim>\<open>np.argmax\<close> and \<^verbatim>\<open>np.argmin\<close> return the index of the first occurrence of the
  extreme value. Both raise on an empty array; the callers below test for emptiness
  before they use these total functions.
\<close>

fun argmax_loop :: "'a::linorder list \<Rightarrow> nat \<Rightarrow> nat \<Rightarrow> 'a \<Rightarrow> nat" where
  "argmax_loop [] i bi bv = bi"
| "argmax_loop (x # xs) i bi bv =
     (if bv < x then argmax_loop xs (Suc i) i x else argmax_loop xs (Suc i) bi bv)"

definition argmax :: "'a::linorder list \<Rightarrow> nat" where
  "argmax xs = (case xs of [] \<Rightarrow> 0 | x # rest \<Rightarrow> argmax_loop rest 1 0 x)"

fun argmin_loop :: "'a::linorder list \<Rightarrow> nat \<Rightarrow> nat \<Rightarrow> 'a \<Rightarrow> nat" where
  "argmin_loop [] i bi bv = bi"
| "argmin_loop (x # xs) i bi bv =
     (if x < bv then argmin_loop xs (Suc i) i x else argmin_loop xs (Suc i) bi bv)"

definition argmin :: "'a::linorder list \<Rightarrow> nat" where
  "argmin xs = (case xs of [] \<Rightarrow> 0 | x # rest \<Rightarrow> argmin_loop rest 1 0 x)"

text \<open>
  What \<^verbatim>\<open>argmax\<close> and \<^verbatim>\<open>argmin\<close> are specified to return: an index of an extreme
  entry with every earlier entry strictly worse.
\<close>

definition first_max :: "'a::linorder list \<Rightarrow> nat \<Rightarrow> bool" where
  "first_max xs r \<longleftrightarrow>
     r < length xs \<and> (\<forall>j<length xs. xs ! j \<le> xs ! r) \<and> (\<forall>j<r. xs ! j < xs ! r)"

definition first_min :: "'a::linorder list \<Rightarrow> nat \<Rightarrow> bool" where
  "first_min xs r \<longleftrightarrow>
     r < length xs \<and> (\<forall>j<length xs. xs ! r \<le> xs ! j) \<and> (\<forall>j<r. xs ! r < xs ! j)"

text \<open>
  Python slicing \<^verbatim>\<open>xs[:k]\<close>: a negative stop counts from the end.
\<close>

definition py_take :: "int \<Rightarrow> 'a list \<Rightarrow> 'a list" where
  "py_take k xs = (if k < 0 then take (nat (int (length xs) + k)) xs else take (nat k) xs)"

text \<open>
  \<^verbatim>\<open>ndarray.reshape\<close> on an array of \<open>n\<close> elements: every negative entry of the requested
  shape is an unknown dimension; more than one is an error; a single one is inferred from
  the others when their product is non-zero and divides \<open>n\<close>; with none, the product must be
  \<open>n\<close>. The result is the resolved shape.
\<close>

definition np_reshape :: "nat \<Rightarrow> int list \<Rightarrow> error + nat list" where
  "np_reshape n dims =
     (let unknown = length (filter (\<lambda>d. d < 0) dims);
          known = prod_list (filter (\<lambda>d. 0 \<le> d) dims)
      in if 1 < unknown then Inl ValueError
         else if unknown = 1 then
           (if known = 0 \<or> int n mod known \<noteq> 0 then Inl ValueError
            else Inr (map (\<lambda>d. if d < 0 then nat (int n div known) else nat d) dims))
         else if known \<noteq> int n then Inl ValueError
         else Inr (map nat dims))"

text \<open>
  A C-ordered array is its flat element list plus a shape. \<open>swapaxes12\<close> is
  \<^verbatim>\<open>a.swapaxes(1, 2)\<close> on a four-dimensional array of shape \<open>(d0, d1, d2, d3)\<close>, returned
  as the flat list of the result in its own C order (which is what the following
  \<^verbatim>\<open>reshape\<close> reads). \<open>rows_of m k\<close> views a flat list as \<open>m\<close> rows of \<open>k\<close> elements.
\<close>

definition swapaxes12 :: "'a list \<Rightarrow> nat \<Rightarrow> nat \<Rightarrow> nat \<Rightarrow> nat \<Rightarrow> 'a list" where
  "swapaxes12 flat d0 d1 d2 d3 =
     concat (map (\<lambda>a. concat (map (\<lambda>b. concat (map (\<lambda>r.
        map (\<lambda>c. flat ! (((a * d1 + r) * d2 + b) * d3 + c)) [0..<d3])
        [0..<d1])) [0..<d2])) [0..<d0])"

definition rows_of :: "nat \<Rightarrow> nat \<Rightarrow> 'a list \<Rightarrow> 'a list list" where
  "rows_of m k xs = map (\<lambda>i. take k (drop (i * k) xs)) [0..<m]"

text \<open>
  \<^verbatim>\<open>np.bincount(block, minlength=256)\<close> on \<^verbatim>\<open>uint8\<close> data: a table of 256 counts.
  \<open>block_mode\<close> is the loop body of lines 219-220: the \<^verbatim>\<open>argmax\<close> of the table, stored
  into the \<^verbatim>\<open>uint8\<close> output array.
\<close>

definition bincount :: "8 word list \<Rightarrow> nat list" where
  "bincount blk = map (\<lambda>v. count_list blk (word_of_nat v)) [0..<256]"

definition block_mode :: "8 word list \<Rightarrow> 8 word" where
  "block_mode blk = word_of_nat (argmax (bincount blk))"

section \<open>Indexed images and block-mode downscaling\<close>

text \<open>
  A mode-\<^verbatim>\<open>P\<close> image: an \<open>height \<times> width\<close> array of \<^verbatim>\<open>uint8\<close> palette indices and the flat
  palette byte list that \<^verbatim>\<open>getpalette()\<close> returns.
\<close>

record indexed_image =
  height :: nat
  width :: nat
  data :: "8 word list list"
  palette :: "8 word list"

definition well_formed :: "indexed_image \<Rightarrow> bool" where
  "well_formed img \<longleftrightarrow>
     length (data img) = height img \<and> list_all (\<lambda>row. length row = width img) (data img)"

text \<open>
  \<^verbatim>\<open>downscale_by_mode\<close> (lines 208-225). \<^verbatim>\<open>H // sy\<close> and \<^verbatim>\<open>W // sx\<close> are Python integer
  divisions and raise on a zero divisor, before anything else happens. The crop is a
  slice, the blocks come from two reshapes around a \<^verbatim>\<open>swapaxes\<close>, \<^verbatim>\<open>np.empty\<close> refuses a
  negative length, and each output entry is the \<^verbatim>\<open>argmax\<close> of the block's count table.
  Where \<open>hb * wb\<close> is not negative the array of blocks has exactly \<open>hb * wb\<close> rows, so the
  loop writes every entry of \<^verbatim>\<open>out_flat\<close> once.
\<close>

definition downscale_by_mode :: "indexed_image \<Rightarrow> int \<Rightarrow> int \<Rightarrow> error + indexed_image" where
  "downscale_by_mode pal_img sy sx =
     (let H = int (height pal_img); W = int (width pal_img)
      in if sy = 0 \<or> sx = 0 then Inl ZeroDivisionError
         else
           let H2 = (H div sy) * sy; W2 = (W div sx) * sx;
               arr = map (py_take W2) (py_take H2 (data pal_img));
               flat = concat arr;
               hb = H2 div sy; wb = W2 div sx
           in case np_reshape (length flat) [hb, sy, wb, sx] of
                Inl e \<Rightarrow> Inl e
              | Inr s4 \<Rightarrow>
                 (case np_reshape (length flat) [hb * wb, sy * sx] of
                    Inl e \<Rightarrow> Inl e
                  | Inr s2 \<Rightarrow>
                     let blocks = rows_of (s2 ! 0) (s2 ! 1)
                                    (swapaxes12 flat (s4 ! 0) (s4 ! 1) (s4 ! 2) (s4 ! 3))
                     in if hb * wb < 0 then Inl ValueError
                        else
                          let out_flat = map block_mode blocks
                          in case np_reshape (length out_flat) [hb, wb] of
                               Inl e \<Rightarrow> Inl e
                             | Inr s \<Rightarrow>
                                 Inr \<lparr>height = s ! 0, width = s ! 1,
                                      data = rows_of (s ! 0) (s ! 1) out_flat,
                                      palette = palette pal_img\<rparr>))"

text \<open>
  The block of the source image at block row \<open>a\<close> and block column \<open>b\<close>, read row by row.
\<close>

definition block_at :: "indexed_image \<Rightarrow> nat \<Rightarrow> nat \<Rightarrow> nat \<Rightarrow> nat \<Rightarrow> 8 word list" where
  "block_at img sy sx a b =
     concat (map (\<lambda>r. map (\<lambda>c. data img ! (a * sy + r) ! (b * sx + c)) [0..<sx]) [0..<sy])"

text \<open>
  \<open>v\<close> is the mode of \<open>blk\<close> with ties going to the lowest value.
\<close>

definition is_block_mode :: "8 word list \<Rightarrow> 8 word \<Rightarrow> bool" where
  "is_block_mode blk v \<longleftrightarrow>
     (\<forall>u. count_list blk u \<le> count_list blk v) \<and>
     (\<forall>u. count_list blk u = count_list blk v \<longrightarrow> v \<le> u)"


section \<open>Colours\<close>

text \<open>
  An RGB colour is three \<^verbatim>\<open>uint8\<close> channels; a Lab colour is three floating-point
  coordinates. Floating-point numbers are idealised as real numbers in this and the next
  sections: the model has the operations of the source in the order of the source,
  without rounding. Where a property depends on the rounding (whether two different
  colours can be at distance zero), the rounded arithmetic of a later section is used.
\<close>

type_synonym rgb = "8 word \<times> 8 word \<times> 8 word"
type_synonym lab = "real \<times> real \<times> real"

definition srgb_to_linear :: "real \<Rightarrow> real" where
  "srgb_to_linear c =
     (if c \<le> 0.04045 then c / 12.92 else ((c + 0.055) / (1 + 0.055)) powr 2.4)"

definition lab_f :: "real \<Rightarrow> real" where
  "lab_f t = (if t > 216 / 24389 then root 3 t else ((24389 / 27) * t + 16) / 116)"

definition rgb_to_lab :: "rgb \<Rightarrow> lab" where
  "rgb_to_lab rgb8 =
     (case rgb8 of (r8, g8, b8) \<Rightarrow>
        let r = srgb_to_linear (real (unat r8) / 255);
            g = srgb_to_linear (real (unat g8) / 255);
            b = srgb_to_linear (real (unat b8) / 255);
            X = r * 0.4124564 + g * 0.3575761 + b * 0.1804375;
            Y = r * 0.2126729 + g * 0.7151522 + b * 0.0721750;
            Z = r * 0.0193339 + g * 0.1191920 + b * 0.9503041;
            fx = lab_f (X / 0.95047);
            fy = lab_f (Y / 1.00000);
            fz = lab_f (Z / 1.08883)
        in (116 * fy - 16, 500 * (fx - fy), 200 * (fy - fz)))"

definition deltaE76 :: "lab \<Rightarrow> lab \<Rightarrow> real" where
  "deltaE76 lab1 lab2 =
     (case (lab1, lab2) of ((l1, a1, b1), (l2, a2, b2)) \<Rightarrow>
        sqrt ((l1 - l2) * (l1 - l2) + (a1 - a2) * (a1 - a2) + (b1 - b2) * (b1 - b2)))"

definition chroma :: "lab \<Rightarrow> real" where
  "chroma c = (case c of (l, a, b) \<Rightarrow> sqrt (a ^ 2 + b ^ 2))"

section \<open>Palette construction\<close>

text \<open>
  The prepared RGB image, an \<open>img_h \<times> img_w \<times> 3\<close> array of \<^verbatim>\<open>uint8\<close>.
\<close>

record rgb_image =
  img_h :: nat
  img_w :: nat
  img_px :: "rgb list list"

definition rgb_well_formed :: "rgb_image \<Rightarrow> bool" where
  "rgb_well_formed img \<longleftrightarrow>
     length (img_px img) = img_h img \<and> list_all (\<lambda>row. length row = img_w img) (img_px img)"

text \<open>
  \<^verbatim>\<open>np.arange(0, n, step)\<close> for a positive stride, and \<^verbatim>\<open>_sample_uniform_grid\<close>
  (lines 97-104). The stride is a natural number here; \<^verbatim>\<open>np.arange\<close> raises
  \<^verbatim>\<open>ZeroDivisionError\<close> on a zero stride.
\<close>

definition arange_step :: "nat \<Rightarrow> nat \<Rightarrow> nat list" where
  "arange_step n step = map (\<lambda>k. k * step) [0..<(n + step - 1) div step]"

definition sample_uniform_grid :: "rgb_image \<Rightarrow> nat \<Rightarrow> error + rgb list" where
  "sample_uniform_grid img_np step =
     (if step = 0 then Inl ZeroDivisionError
      else
        let ys = arange_step (img_h img_np) step;
            xs = arange_step (img_w img_np) step
        in Inr (concat (map (\<lambda>y. map (\<lambda>x. img_px img_np ! y ! x) xs) ys)))"

text \<open>
  \<^verbatim>\<open>_dedup_colors\<close> (lines 106-110). The bucketing is \<^verbatim>\<open>uint8\<close> arithmetic (it wraps);
  \<^verbatim>\<open>np.unique\<close> with \<^verbatim>\<open>return_index\<close> followed by \<^verbatim>\<open>uq[idx.argsort()]\<close> keeps one copy of
  each row, in the order of first occurrence. The bucket width is a \<^verbatim>\<open>uint8\<close> value here
  (the command line allows 8, 16 and 32).
\<close>

definition bucket_channel :: "8 word \<Rightarrow> 8 word \<Rightarrow> 8 word" where
  "bucket_channel round_to c = (c div round_to) * round_to + round_to div 2"

definition first_occurrences :: "'a list \<Rightarrow> 'a list" where
  "first_occurrences xs = foldl (\<lambda>acc x. if x \<in> set acc then acc else acc @ [x]) [] xs"

definition dedup_colors :: "rgb list \<Rightarrow> 8 word \<Rightarrow> rgb list" where
  "dedup_colors rgb round_to =
     first_occurrences
       (map (\<lambda>(r, g, b). (bucket_channel round_to r, bucket_channel round_to g,
                          bucket_channel round_to b)) rgb)"

text \<open>
  \<^verbatim>\<open>_farthest_point_palette\<close> (lines 112-124), as its only caller uses it: no seed index
  and \<^verbatim>\<open>_deltaE76\<close> as the distance. \<open>fp_loop\<close> is the \<^verbatim>\<open>for _ in range(1, K)\<close> loop over
  the state \<open>(chosen, dmin)\<close>. \<^verbatim>\<open>np.argmax\<close> of an empty array raises \<^verbatim>\<open>ValueError\<close>.
\<close>

fun fp_loop :: "lab list \<Rightarrow> nat \<Rightarrow> nat list \<times> real list \<Rightarrow> nat list \<times> real list" where
  "fp_loop cand_lab 0 st = st"
| "fp_loop cand_lab (Suc n) (chosen, dmin) =
     (let idx = argmax dmin
      in fp_loop cand_lab n
           (chosen @ [idx],
            map2 min dmin (map (\<lambda>c. deltaE76 c (cand_lab ! idx)) cand_lab)))"

definition farthest_point_palette :: "lab list \<Rightarrow> int \<Rightarrow> error + nat list" where
  "farthest_point_palette cand_lab K =
     (if cand_lab = [] then Inl ValueError
      else
        let seed_idx = argmax (map chroma cand_lab);
            dmin = map (\<lambda>c. deltaE76 c (cand_lab ! seed_idx)) cand_lab
        in Inr (fst (fp_loop cand_lab (nat (K - 1)) ([seed_idx], dmin))))"

text \<open>
  \<^verbatim>\<open>_kmedoids_one_iter\<close> (lines 126-139): every candidate goes to its nearest palette
  entry; each palette slot with members moves to the member with the least total distance
  to the members, an empty slot stays.
\<close>

definition kmedoids_one_iter :: "lab list \<Rightarrow> nat list \<Rightarrow> nat list" where
  "kmedoids_one_iter cand_lab palette_idx =
     (let pal = map (\<lambda>i. cand_lab ! i) palette_idx;
          assign = map (\<lambda>c. argmin (map (\<lambda>p. deltaE76 c p) pal)) cand_lab
      in map (\<lambda>k.
           let members = filter (\<lambda>i. assign ! i = k) [0..<length cand_lab]
           in if members = [] then palette_idx ! k
              else
                let sub = map (\<lambda>i. cand_lab ! i) members;
                    SD = map (\<lambda>s. sum_list (map (\<lambda>t. deltaE76 s t) sub)) sub
                in members ! argmin SD)
         [0..<length pal])"

section \<open>Quantization\<close>

text \<open>
  Python slicing \<^verbatim>\<open>xs[start:end]\<close> and slice assignment \<^verbatim>\<open>xs[start:end] = vals\<close> for
  \<open>vals\<close> as long as the slice; negative bounds count from the end.
\<close>

definition py_bound :: "nat \<Rightarrow> int \<Rightarrow> nat" where
  "py_bound n i = (if i < 0 then nat (int n + i) else min (nat i) n)"

definition py_slice :: "'a list \<Rightarrow> int \<Rightarrow> int \<Rightarrow> 'a list" where
  "py_slice xs start end =
     (let lo = py_bound (length xs) start; hi = py_bound (length xs) end
      in take (hi - lo) (drop lo xs))"

definition py_slice_assign :: "'a list \<Rightarrow> int \<Rightarrow> int \<Rightarrow> 'a list \<Rightarrow> 'a list" where
  "py_slice_assign xs start end vals =
     (let lo = py_bound (length xs) start; hi = py_bound (length xs) end
      in take lo xs @ vals @ drop (max lo hi) xs)"

text \<open>
  One row of lines 166-167: the distances of a pixel to every palette colour, the
  \<^verbatim>\<open>argmin\<close>, and the cast \<^verbatim>\<open>astype(np.uint8)\<close>, which keeps the low eight bits.
\<close>

definition nearest_index :: "lab list \<Rightarrow> lab \<Rightarrow> nat" where
  "nearest_index lab_pal p = argmin (map (\<lambda>q. deltaE76 p q) lab_pal)"

definition quantize_chunk :: "lab list \<Rightarrow> rgb list \<Rightarrow> 8 word list" where
  "quantize_chunk lab_pal chunk =
     map (\<lambda>c. word_of_nat (nearest_index lab_pal (rgb_to_lab c))) chunk"

text \<open>
  The \<^verbatim>\<open>while start < flat_rgb.shape[0]\<close> loop of lines 162-168. Nothing bounds the
  number of iterations when \<^verbatim>\<open>map_chunk\<close> is not positive, so the loop is a partial
  function: \<open>None\<close> is "does not return". \<^verbatim>\<open>np.stack\<close> of an empty list of arrays raises
  \<^verbatim>\<open>ValueError\<close>.
\<close>

partial_function (option) quantize_loop ::
  "lab list \<Rightarrow> rgb list \<Rightarrow> int \<Rightarrow> int \<Rightarrow> 8 word list \<Rightarrow> (error + 8 word list) option" where
  "quantize_loop lab_pal flat_rgb map_chunk start out_idx =
     (if start < int (length flat_rgb) then
        let end = min (start + map_chunk) (int (length flat_rgb))
        in if lab_pal = [] then Some (Inl ValueError)
           else quantize_loop lab_pal flat_rgb map_chunk end
                  (py_slice_assign out_idx start end
                     (quantize_chunk lab_pal (py_slice flat_rgb start end)))
      else Some (Inr out_idx))"

text \<open>
  The reference the chunked loop is compared with: all pixels in one pass.
\<close>

definition quantize_one_pass :: "lab list \<Rightarrow> rgb list \<Rightarrow> 8 word list" where
  "quantize_one_pass lab_pal flat_rgb =
     map (\<lambda>c. word_of_nat (argmin (map (\<lambda>q. deltaE76 (rgb_to_lab c) q) lab_pal))) flat_rgb"

text \<open>
  \<^verbatim>\<open>posterize_diverse\<close> (lines 141-173) in two parts. \<open>build_palette\<close> is lines 145-155:
  sampling, deduplication, \<^verbatim>\<open>K = max(2, int(colors))\<close>, selection, optional refinement and
  \<^verbatim>\<open>palette_rgb = cand_rgb[pal_idx]\<close>. The indices that the selection returns are positions
  in the candidate list (always in range, see \<open>farthest_point_palette_in_range\<close> and
  \<open>kmedoids_one_iter_in_range\<close>). \<open>posterize_diverse\<close> continues with lines 157-173: the
  quantization loop, the reshape to \<open>H \<times> W\<close> and the palette. \<^verbatim>\<open>np.empty\<close> gives an array of
  unspecified contents, zeros here; the loop overwrites every entry. The palette bytes are
  padded with zeros to 768 entries; \<^verbatim>\<open>putpalette\<close> of Pillow takes at most 256 colours and
  raises \<^verbatim>\<open>ValueError\<close> on more.
\<close>

definition build_palette :: "rgb_image \<Rightarrow> int \<Rightarrow> nat \<Rightarrow> 8 word \<Rightarrow> bool \<Rightarrow> error + rgb list" where
  "build_palette img_np colors sample_step bucket refine =
     (case sample_uniform_grid img_np sample_step of
        Inl e \<Rightarrow> Inl e
      | Inr sampled \<Rightarrow>
          let cand_rgb = dedup_colors sampled bucket;
              cand_lab = map rgb_to_lab cand_rgb;
              K = max 2 colors
          in case farthest_point_palette cand_lab K of
               Inl e \<Rightarrow> Inl e
             | Inr pal_idx \<Rightarrow>
                 Inr (map (\<lambda>i. cand_rgb ! i)
                        (if refine then kmedoids_one_iter cand_lab pal_idx else pal_idx)))"

definition posterize_diverse ::
  "rgb_image \<Rightarrow> int \<Rightarrow> nat \<Rightarrow> 8 word \<Rightarrow> bool \<Rightarrow> int \<Rightarrow> (error + indexed_image) option" where
  "posterize_diverse img_np colors sample_step bucket refine map_chunk =
     (case build_palette img_np colors sample_step bucket refine of
        Inl e \<Rightarrow> Some (Inl e)
      | Inr palette_rgb \<Rightarrow>
          let flat_rgb = concat (img_px img_np);
              lab_pal = map rgb_to_lab palette_rgb
          in case quantize_loop lab_pal flat_rgb map_chunk 0
                    (replicate (length flat_rgb) 0) of
               None \<Rightarrow> None
             | Some (Inl e) \<Rightarrow> Some (Inl e)
             | Some (Inr out_idx) \<Rightarrow>
                 (case np_reshape (length out_idx)
                         [int (img_h img_np), int (img_w img_np)] of
                    Inl e \<Rightarrow> Some (Inl e)
                  | Inr s \<Rightarrow>
                      let pal_list = concat (map (\<lambda>(r, g, b). [r, g, b]) palette_rgb);
                          padded = pal_list @ replicate (768 - length pal_list) 0
                      in if 768 < length padded then Some (Inl ValueError)
                         else Some (Inr \<lparr>height = s ! 0, width = s ! 1,
                                          data = rows_of (s ! 0) (s ! 1) out_idx,
                                          palette = padded\<rparr>)))"


text \<open>
  The distance from a colour to the nearest of the candidates already chosen.
\<close>

definition nearest_chosen_distance :: "lab list \<Rightarrow> nat list \<Rightarrow> lab \<Rightarrow> real" where
  "nearest_chosen_distance cand_lab chosen c =
     Min ((\<lambda>i. deltaE76 c (cand_lab ! i)) ` set chosen)"

text \<open>
  The greedy k-center rule as a property of the list of chosen indices: the first is the
  first candidate of maximal chroma, and each later one is the first candidate that
  maximises the distance to the nearest of the indices chosen before it.
\<close>

definition farthest_point_spec :: "lab list \<Rightarrow> nat list \<Rightarrow> bool" where
  "farthest_point_spec cand_lab chosen \<longleftrightarrow>
     first_max (map chroma cand_lab) (chosen ! 0) \<and>
     (\<forall>t. 1 \<le> t \<and> t < length chosen \<longrightarrow>
        first_max (map (nearest_chosen_distance cand_lab (take t chosen)) cand_lab) (chosen ! t))"

section \<open>Farthest-point selection in rounded arithmetic\<close>

text \<open>
  The distances of \<^verbatim>\<open>_farthest_point_palette\<close> are \<^verbatim>\<open>float64\<close> values, and whether two
  candidates are at distance zero depends on the rounding. This section has the
  arithmetic of lines 90-92 and 116 with a rounding function \<open>rnd\<close> applied after every
  operation, in the order NumPy performs them: the componentwise difference, the
  componentwise square, the sum over the three components from left to right, the square
  root. With the identity for \<open>rnd\<close> these are \<open>deltaE76\<close> and \<open>chroma\<close>; with \<open>float64\<close> below
  they are the values the program computes.

  \<open>float64\<close> is IEEE 754 binary64 rounding to nearest, ties to even: the exponent of
  \<open>x\<close> is at least \<open>-1022\<close> (below that the spacing stays \<open>2 powr (-1074)\<close>, the subnormal
  numbers), and \<open>x\<close> is rounded to a multiple of the spacing at that exponent. Overflow to
  infinity (results of magnitude \<open>2 powr 1024\<close> or more) is not part of it; Lab coordinates
  of 8-bit colours are far from that range.
\<close>

definition round_half_even :: "real \<Rightarrow> int" where
  "round_half_even x =
     (let f = \<lfloor>x\<rfloor>; r = x - real_of_int f
      in if r < 1 / 2 then f
         else if 1 / 2 < r then f + 1
         else if even f then f else f + 1)"

definition float64 :: "real \<Rightarrow> real" where
  "float64 x =
     (if x = 0 then 0
      else
        let e = max \<lfloor>log 2 \<bar>x\<bar>\<rfloor> (- 1022);
            ulp = 2 powr (real_of_int e - 52)
        in real_of_int (round_half_even (x / ulp)) * ulp)"

definition chroma_rounded :: "(real \<Rightarrow> real) \<Rightarrow> lab \<Rightarrow> real" where
  "chroma_rounded rnd c =
     (case c of (l, a, b) \<Rightarrow> rnd (sqrt (rnd (rnd (a * a) + rnd (b * b)))))"

definition deltaE76_rounded :: "(real \<Rightarrow> real) \<Rightarrow> lab \<Rightarrow> lab \<Rightarrow> real" where
  "deltaE76_rounded rnd lab1 lab2 =
     (case (lab1, lab2) of ((l1, a1, b1), (l2, a2, b2)) \<Rightarrow>
        let d0 = rnd (l1 - l2); d1 = rnd (a1 - a2); d2 = rnd (b1 - b2)
        in rnd (sqrt (rnd (rnd (rnd (d0 * d0) + rnd (d1 * d1)) + rnd (d2 * d2)))))"

text \<open>
  \<^verbatim>\<open>_farthest_point_palette\<close> (lines 112-124) once more, over the rounded distance and
  chroma. \<^verbatim>\<open>np.argmax\<close> and \<^verbatim>\<open>np.minimum\<close> compare and select, they do not round.
\<close>

fun fp_loop_rounded ::
  "(real \<Rightarrow> real) \<Rightarrow> lab list \<Rightarrow> nat \<Rightarrow> nat list \<times> real list \<Rightarrow> nat list \<times> real list" where
  "fp_loop_rounded rnd cand_lab 0 st = st"
| "fp_loop_rounded rnd cand_lab (Suc n) (chosen, dmin) =
     (let idx = argmax dmin
      in fp_loop_rounded rnd cand_lab n
           (chosen @ [idx],
            map2 min dmin (map (\<lambda>c. deltaE76_rounded rnd c (cand_lab ! idx)) cand_lab)))"

definition farthest_point_palette_rounded ::
  "(real \<Rightarrow> real) \<Rightarrow> lab list \<Rightarrow> int \<Rightarrow> error + nat list" where
  "farthest_point_palette_rounded rnd cand_lab K =
     (if cand_lab = [] then Inl ValueError
      else
        let seed_idx = argmax (map (chroma_rounded rnd) cand_lab);
            dmin = map (\<lambda>c. deltaE76_rounded rnd c (cand_lab ! seed_idx)) cand_lab
        in Inr (fst (fp_loop_rounded rnd cand_lab (nat (K - 1)) ([seed_idx], dmin))))"

text \<open>
  The invariant of the loop behind the distinctness of the chosen indices: the indices
  chosen so far are distinct positions of the candidate list, and exactly the candidates
  not chosen yet have a positive nearest-chosen distance.
\<close>

definition fp_inv :: "nat \<Rightarrow> nat list \<times> real list \<Rightarrow> bool" where
  "fp_inv N st \<longleftrightarrow>
     (case st of (chosen, dmin) \<Rightarrow>
        length dmin = N \<and> distinct chosen \<and> (\<forall>i\<in>set chosen. i < N) \<and>
        (\<forall>i<N. if i \<in> set chosen then dmin ! i \<le> 0 else 0 < dmin ! i))"

section \<open>Grid estimation and the pipeline\<close>

text \<open>
  \<^verbatim>\<open>_best_period\<close> (lines 178-196). The profile is normalised with its mean and its
  population standard deviation plus \<^verbatim>\<open>1e-6\<close>. \<open>strided xs o s\<close> is \<^verbatim>\<open>xs[o::s]\<close>.
  \<open>best_for_s\<close> is the inner loop over the phases. The outer loop runs over
  \<^verbatim>\<open>range(lo, min(hi, n) + 1)\<close>; for \<open>s = 0\<close> the division by \<^verbatim>\<open>math.sqrt(s)\<close> raises
  \<^verbatim>\<open>ZeroDivisionError\<close> and for \<open>s < 0\<close> \<^verbatim>\<open>math.sqrt\<close> raises \<^verbatim>\<open>ValueError\<close>. The last line
  is \<^verbatim>\<open>best_s or 1\<close>.
\<close>

definition normalize_strength :: "real list \<Rightarrow> real list" where
  "normalize_strength strength =
     (let n = real (length strength);
          mean = sum_list strength / n;
          std = sqrt (sum_list (map (\<lambda>x. (x - mean) ^ 2) strength) / n)
      in map (\<lambda>x. (x - mean) / (std + 1 / 1000000)) strength)"

definition strided :: "'a list \<Rightarrow> nat \<Rightarrow> nat \<Rightarrow> 'a list" where
  "strided xs off s = map (\<lambda>k. xs ! (off + k * s)) [0..<(length xs - off + s - 1) div s]"

definition best_for_s :: "real list \<Rightarrow> nat \<Rightarrow> real" where
  "best_for_s strength s =
     fold (\<lambda>off best.
             let vals = strided strength off s
             in if length vals \<le> 1 then best
                else
                  let score = sum_list (map abs vals) / real (length vals)
                  in if score > best then score else best)
          [0..<s] (- 1)"

fun period_loop :: "real list \<Rightarrow> int list \<Rightarrow> int option \<times> real \<Rightarrow> error + int option \<times> real" where
  "period_loop strength [] st = Inr st"
| "period_loop strength (s # ss) (best_s, best_score) =
     (if s < 0 then Inl ValueError
      else if s = 0 then Inl ZeroDivisionError
      else
        let score = best_for_s strength (nat s) / sqrt (real_of_int s)
        in period_loop strength ss
             (if score > best_score then (Some s, score) else (best_s, best_score)))"

definition best_period :: "real list \<Rightarrow> int \<Rightarrow> int \<Rightarrow> error + int" where
  "best_period strength lo hi =
     (case period_loop (normalize_strength strength)
             [lo..min hi (int (length strength))] (None, - 1) of
        Inl e \<Rightarrow> Inl e
      | Inr (best_s, best_score) \<Rightarrow>
          Inr (case best_s of None \<Rightarrow> 1 | Some s \<Rightarrow> if s = 0 then 1 else s))"

text \<open>
  \<^verbatim>\<open>estimate_grid_step_from_edges\<close> (lines 198-206): the number of colour changes between
  neighbouring columns (rows), summed over the rows (columns); \<open>sx\<close> is computed first.
\<close>

definition col_strength :: "indexed_image \<Rightarrow> real list" where
  "col_strength pal_img =
     map (\<lambda>x. real (length (filter (\<lambda>row. row ! (x + 1) \<noteq> row ! x) (data pal_img))))
       [0..<width pal_img - 1]"

definition row_strength :: "indexed_image \<Rightarrow> real list" where
  "row_strength pal_img =
     map (\<lambda>y. real (length (filter (\<lambda>x. data pal_img ! (y + 1) ! x \<noteq> data pal_img ! y ! x)
                               [0..<width pal_img])))
       [0..<height pal_img - 1]"

definition estimate_grid_step_from_edges ::
  "indexed_image \<Rightarrow> int \<Rightarrow> int \<Rightarrow> error + int \<times> int" where
  "estimate_grid_step_from_edges pal_img smin smax =
     (case best_period (col_strength pal_img) smin smax of
        Inl e \<Rightarrow> Inl e
      | Inr sx \<Rightarrow>
          (case best_period (row_strength pal_img) smin smax of
             Inl e \<Rightarrow> Inl e
           | Inr sy \<Rightarrow> Inr (sy, sx)))"

text \<open>
  \<^verbatim>\<open>fix_pixel_art\<close> (lines 230-253) on the prepared RGB image. \<open>block_size_stage\<close> is
  lines 241-253, from the quantized image on: it returns the quantized image, the block
  size used and the downscaled image. \<^verbatim>\<open>fix_pixel_art\<close> calls \<^verbatim>\<open>posterize_diverse\<close> with
  the default \<^verbatim>\<open>map_chunk=400_000\<close>.
\<close>

definition block_size_stage ::
  "indexed_image \<Rightarrow> int \<Rightarrow> int \<Rightarrow> (int \<times> int) option
     \<Rightarrow> error + indexed_image \<times> (int \<times> int) \<times> indexed_image" where
  "block_size_stage pal smin smax override =
     (case (case override of
              None \<Rightarrow>
                (case estimate_grid_step_from_edges pal smin smax of
                   Inl e \<Rightarrow> Inl e
                 | Inr (sy, sx) \<Rightarrow>
                     let (sy1, sx1) = (if sx < sy then (sy, sy) else (sx, sx))
                     in Inr (sy1 - 1, sx1 - 1))
            | Some (sy, sx) \<Rightarrow> Inr (sy, sx)) of
        Inl e \<Rightarrow> Inl e
      | Inr (sy, sx) \<Rightarrow>
          (case downscale_by_mode pal sy sx of
             Inl e \<Rightarrow> Inl e
           | Inr fixed \<Rightarrow> Inr (pal, (sy, sx), fixed)))"

definition fix_pixel_art ::
  "rgb_image \<Rightarrow> int \<Rightarrow> int \<Rightarrow> int \<Rightarrow> nat \<Rightarrow> 8 word \<Rightarrow> bool \<Rightarrow> (int \<times> int) option
     \<Rightarrow> (error + indexed_image \<times> (int \<times> int) \<times> indexed_image) option" where
  "fix_pixel_art img_prep colors smin smax sample_step bucket refine override =
     (case posterize_diverse img_prep colors sample_step bucket refine 400000 of
        None \<Rightarrow> None
      | Some (Inl e) \<Rightarrow> Some (Inl e)
      | Some (Inr pal) \<Rightarrow> Some (block_size_stage pal smin smax override))"

section \<open>A test image\<close>

text \<open>
  A \<open>2 \<times> 2\<close> RGB image used to instantiate the theorems below. With the default stride 4
  only its top-left pixel is sampled, so there is a single candidate colour.
\<close>

definition example_image :: rgb_image where
  "example_image = \<lparr>img_h = 2, img_w = 2,
     img_px = [[(200, 10, 10), (0, 0, 255)], [(5, 5, 5), (255, 255, 255)]]\<rparr>"
section \<open>Proofs: NumPy primitives\<close>

lemma argmax_loop_first_max:
  "first_max pre bi \<Longrightarrow> bv = pre ! bi \<Longrightarrow> i = length pre \<Longrightarrow>
   first_max (pre @ xs) (argmax_loop xs i bi bv)"
proof (induction xs arbitrary: pre i bi bv)
  case Nil
  then show ?case by simp
next
  case (Cons x xs)
  show ?case
  proof (cases "bv < x")
    case True
    have "first_max (pre @ [x]) (length pre)"
      using Cons.prems True
      by (auto simp: first_max_def nth_append less_Suc_eq intro: less_imp_le order.strict_trans1)
    from Cons.IH [OF this, of x "Suc i"] Cons.prems True show ?thesis by simp
  next
    case False
    have "first_max (pre @ [x]) bi"
      using Cons.prems False
      by (auto simp: first_max_def nth_append less_Suc_eq)
    from Cons.IH [OF this, of bv "Suc i"] Cons.prems False show ?thesis
      by (simp add: first_max_def nth_append)
  qed
qed

lemma argmax_first_max:
  assumes "xs \<noteq> []"
  shows "first_max xs (argmax xs)"
proof -
  from assms obtain x rest where xs: "xs = x # rest" by (cases xs) auto
  have "first_max [x] 0" by (simp add: first_max_def)
  from argmax_loop_first_max [OF this, of x 1 rest] xs show ?thesis
    by (simp add: argmax_def)
qed

lemma concat_nth_uniform:
  "\<forall>xs\<in>set xss. length xs = k \<Longrightarrow> i < length xss \<Longrightarrow> j < k \<Longrightarrow>
   concat xss ! (i * k + j) = xss ! i ! j"
proof (induction xss arbitrary: i)
  case Nil
  then show ?case by simp
next
  case (Cons xs xss)
  show ?case
  proof (cases i)
    case 0
    with Cons.prems show ?thesis by (simp add: nth_append)
  next
    case (Suc i')
    with Cons.prems have "concat xss ! (i' * k + j) = xss ! i' ! j"
      by (intro Cons.IH) auto
    with Cons.prems Suc show ?thesis by (simp add: nth_append)
  qed
qed

lemma length_concat_uniform:
  "\<forall>xs\<in>set xss. length xs = k \<Longrightarrow> length (concat xss) = length xss * k"
  by (induction xss) auto

lemma take_drop_concat_uniform:
  "\<forall>xs\<in>set xss. length xs = k \<Longrightarrow> i < length xss \<Longrightarrow>
   take k (drop (i * k) (concat xss)) = xss ! i"
proof (induction xss arbitrary: i)
  case Nil
  then show ?case by simp
next
  case (Cons xs xss)
  show ?case
  proof (cases i)
    case 0
    with Cons.prems show ?thesis by simp
  next
    case (Suc i')
    with Cons.prems have "take k (drop (i' * k) (concat xss)) = xss ! i'"
      by (intro Cons.IH) auto
    with Cons.prems Suc show ?thesis by simp
  qed
qed

lemma rows_of_concat:
  assumes "\<forall>xs\<in>set xss. length xs = k"
  shows "rows_of (length xss) k (concat xss) = xss"
proof (rule nth_equalityI)
  show "length (rows_of (length xss) k (concat xss)) = length xss"
    by (simp add: rows_of_def)
next
  fix i assume "i < length (rows_of (length xss) k (concat xss))"
  then have "i < length xss" by (simp add: rows_of_def)
  then show "rows_of (length xss) k (concat xss) ! i = xss ! i"
    using assms by (simp add: rows_of_def take_drop_concat_uniform)
qed

lemma swapaxes12_blocks:
  "swapaxes12 flat d0 d1 d2 d3 =
   concat (concat (map (\<lambda>a. map (\<lambda>b. concat (map (\<lambda>r.
        map (\<lambda>c. flat ! (((a * d1 + r) * d2 + b) * d3 + c)) [0..<d3]) [0..<d1])) [0..<d2]) [0..<d0]))"
  unfolding swapaxes12_def by (induction d0) simp_all

lemma np_reshape_known:
  "\<forall>d\<in>set dims. 0 \<le> d \<Longrightarrow> prod_list dims = int n \<Longrightarrow> np_reshape n dims = Inr (map nat dims)"
proof -
  assume a: "\<forall>d\<in>set dims. 0 \<le> d" and b: "prod_list dims = int n"
  from a have "filter (\<lambda>d. d < 0) dims = []" by (auto simp: filter_empty_conv)
  moreover from a have "filter (\<lambda>d. 0 \<le> d) dims = dims" by (auto simp: filter_id_conv)
  ultimately show ?thesis using b by (simp add: np_reshape_def)
qed

lemma np_reshape_two_unknown:
  "a < 0 \<Longrightarrow> b < 0 \<Longrightarrow> np_reshape n [a, b, c, d] = Inl ValueError"
  "c < 0 \<Longrightarrow> d < 0 \<Longrightarrow> np_reshape n [a, b, c, d] = Inl ValueError"
  by (simp_all add: np_reshape_def Let_def)

lemma np_reshape_zero_unknown:
  "b < 0 \<Longrightarrow> np_reshape n [0, b, c, d] = Inl ValueError"
  "d < 0 \<Longrightarrow> np_reshape n [a, b, 0, d] = Inl ValueError"
  by (simp_all add: np_reshape_def Let_def)

section \<open>Proofs: block-mode downscaling\<close>

lemma flat_crop_nth:
  assumes wf: "well_formed img"
    and r: "row < hb * ky" and c: "col < wb * kx"
    and hb: "hb * ky \<le> height img" and wb: "wb * kx \<le> width img"
  shows "concat (map (take (wb * kx)) (take (hb * ky) (data img))) ! (row * (wb * kx) + col)
         = data img ! row ! col"
proof -
  let ?arr = "map (take (wb * kx)) (take (hb * ky) (data img))"
  have len: "length ?arr = hb * ky"
    using wf hb by (simp add: well_formed_def)
  have uni: "\<forall>xs\<in>set ?arr. length xs = wb * kx"
    using wf wb by (auto simp: well_formed_def list_all_iff dest!: in_set_takeD)
  have "concat ?arr ! (row * (wb * kx) + col) = ?arr ! row ! col"
    using uni len r c by (intro concat_nth_uniform) auto
  also have "\<dots> = data img ! row ! col"
    using r c len by simp
  finally show ?thesis .
qed

lemma flat_crop_length:
  assumes wf: "well_formed img"
    and hb: "hb * ky \<le> height img" and wb: "wb * kx \<le> width img"
  shows "length (concat (map (take (wb * kx)) (take (hb * ky) (data img)))) = hb * ky * (wb * kx)"
proof -
  let ?arr = "map (take (wb * kx)) (take (hb * ky) (data img))"
  have len: "length ?arr = hb * ky"
    using wf hb by (simp add: well_formed_def)
  have uni: "\<forall>xs\<in>set ?arr. length xs = wb * kx"
    using wf wb by (auto simp: well_formed_def list_all_iff dest!: in_set_takeD)
  from length_concat_uniform [OF uni] len show ?thesis by simp
qed

lemma blocks_of_crop:
  assumes wf: "well_formed img"
    and hb: "hb * ky \<le> height img" and wb: "wb * kx \<le> width img"
  shows "map (\<lambda>a. map (\<lambda>b. concat (map (\<lambda>r. map (\<lambda>c.
            concat (map (take (wb * kx)) (take (hb * ky) (data img)))
              ! (((a * ky + r) * wb + b) * kx + c)) [0..<kx]) [0..<ky])) [0..<wb]) [0..<hb]
         = map (\<lambda>a. map (\<lambda>b. block_at img ky kx a b) [0..<wb]) [0..<hb]"
proof -
  have "concat (map (take (wb * kx)) (take (hb * ky) (data img)))
              ! (((a * ky + r) * wb + b) * kx + c) = data img ! (a * ky + r) ! (b * kx + c)"
    if "a < hb" "b < wb" "r < ky" "c < kx" for a b r c
  proof -
    have e: "((a * ky + r) * wb + b) * kx + c = (a * ky + r) * (wb * kx) + (b * kx + c)"
      by (simp add: algebra_simps)
    have "a * ky + r < Suc a * ky" using that by simp
    also have "\<dots> \<le> hb * ky" using that by (intro mult_le_mono1) simp
    finally have r': "a * ky + r < hb * ky" .
    have "b * kx + c < Suc b * kx" using that by simp
    also have "\<dots> \<le> wb * kx" using that by (intro mult_le_mono1) simp
    finally have c': "b * kx + c < wb * kx" .
    show ?thesis unfolding e by (rule flat_crop_nth [OF wf r' c' hb wb])
  qed
  then show ?thesis
    unfolding block_at_def
    by (intro map_cong arg_cong [where f = concat] refl) simp_all
qed

lemma downscale_by_mode_pos:
  assumes wf: "well_formed img" and ky: "0 < ky" and kx: "0 < kx"
  shows "downscale_by_mode img (int ky) (int kx) =
         Inr \<lparr>height = height img div ky, width = width img div kx,
              data = map (\<lambda>a. map (\<lambda>b. block_mode (block_at img ky kx a b))
                               [0..<width img div kx]) [0..<height img div ky],
              palette = palette img\<rparr>"
proof -
  define hb where "hb = height img div ky"
  define wb where "wb = width img div kx"
  define flat where "flat = concat (map (take (wb * kx)) (take (hb * ky) (data img)))"
  define bl where "bl = map (\<lambda>a. map (\<lambda>b. block_at img ky kx a b) [0..<wb]) [0..<hb]"
  have hble: "hb * ky \<le> height img" and wble: "wb * kx \<le> width img"
    by (simp_all add: hb_def wb_def)
  have H2: "(int (height img) div int ky) * int ky = int (hb * ky)"
    and W2: "(int (width img) div int kx) * int kx = int (wb * kx)"
    by (simp_all add: hb_def wb_def zdiv_int)
  have hb2: "int (hb * ky) div int ky = int hb" and wb2: "int (wb * kx) div int kx = int wb"
    using ky kx by (simp_all flip: of_nat_div)
  have lenflat: "length flat = hb * ky * (wb * kx)"
    unfolding flat_def by (rule flat_crop_length [OF wf hble wble])
  have r1: "np_reshape (length flat) [int hb, int ky, int wb, int kx] = Inr [hb, ky, wb, kx]"
    using np_reshape_known [of "[int hb, int ky, int wb, int kx]" "length flat"]
    by (simp add: lenflat algebra_simps)
  have r2: "np_reshape (length flat) [int hb * int wb, int ky * int kx] = Inr [hb * wb, ky * kx]"
    using np_reshape_known [of "[int hb * int wb, int ky * int kx]" "length flat"]
    by (simp add: lenflat algebra_simps nat_mult_distrib)
  have sw: "swapaxes12 flat hb ky wb kx = concat (concat bl)"
    unfolding swapaxes12_blocks bl_def flat_def
    by (simp only: blocks_of_crop [OF wf hble wble])
  have len_bl: "length (concat bl) = hb * wb"
    using length_concat_uniform [of bl wb] by (simp add: bl_def)
  have uni: "\<forall>xs\<in>set (concat bl). length xs = ky * kx"
    using length_concat_uniform [of _ kx]
    by (auto simp: bl_def block_at_def length_concat sum_list_triv comp_def)
  have blocks: "rows_of (hb * wb) (ky * kx) (swapaxes12 flat hb ky wb kx) = concat bl"
    using rows_of_concat [OF uni] by (simp add: sw len_bl)
  define outf where "outf = map block_mode (concat bl)"
  have r3: "np_reshape (length outf) [int hb, int wb] = Inr [hb, wb]"
    using np_reshape_known [of "[int hb, int wb]" "length outf"]
    by (simp add: outf_def len_bl)
  have outf: "outf = concat (map (\<lambda>a. map (\<lambda>b. block_mode (block_at img ky kx a b)) [0..<wb]) [0..<hb])"
    by (simp add: outf_def bl_def map_concat comp_def)
  have rows: "rows_of hb wb outf = map (\<lambda>a. map (\<lambda>b. block_mode (block_at img ky kx a b)) [0..<wb]) [0..<hb]"
    unfolding outf
    using rows_of_concat [of "map (\<lambda>a. map (\<lambda>b. block_mode (block_at img ky kx a b)) [0..<wb]) [0..<hb]" wb]
    by simp
  have nz: "int ky \<noteq> 0" "int kx \<noteq> 0" "\<not> int hb * int wb < 0"
    using ky kx by (simp_all add: mult_less_0_iff)
  have pt: "py_take (int k) xs = take k xs" for k and xs :: "'b list"
    by (simp add: py_take_def)
  show ?thesis
    unfolding downscale_by_mode_def Let_def H2 W2 hb2 wb2 pt
    unfolding flat_def [symmetric] r1 r2
    using nz
    by (simp add: blocks outf_def [symmetric] r3 rows flip: hb_def wb_def)
qed

lemma bincount_nth: "unat u < 256 \<Longrightarrow> bincount blk ! unat u = count_list blk u"
  by (simp add: bincount_def)

lemma block_mode_is_mode: "is_block_mode blk (block_mode blk)"
proof -
  define r where "r = argmax (bincount blk)"
  have len: "length (bincount blk) = 256" by (simp add: bincount_def)
  then have "bincount blk \<noteq> []" by auto
  then have fm: "first_max (bincount blk) r"
    unfolding r_def by (rule argmax_first_max)
  then have r: "r < 256" by (simp add: first_max_def len)
  define v :: "8 word" where "v = word_of_nat r"
  have uv: "unat v = r" using r by (simp add: v_def unat_of_nat)
  have small: "unat u < 256" for u :: "8 word"
    using unsigned_less [of u, where 'a = nat] by simp
  have cnt: "bincount blk ! unat u = count_list blk u" for u
    by (rule bincount_nth [OF small])
  have cv: "bincount blk ! r = count_list blk v"
    using cnt [of v] by (simp add: uv)
  have "count_list blk u \<le> count_list blk v" for u
    using fm small [of u] cnt [of u] cv by (auto simp: first_max_def len)
  moreover have "v \<le> u" if "count_list blk u = count_list blk v" for u
  proof (rule ccontr)
    assume "\<not> v \<le> u"
    then have "unat u < r" by (simp add: word_le_nat_alt uv)
    with fm have "bincount blk ! unat u < bincount blk ! r" by (simp add: first_max_def)
    with that show False by (simp add: cnt cv)
  qed
  ultimately show ?thesis by (simp add: is_block_mode_def block_mode_def r_def v_def)
qed

lemma is_block_mode_monochrome:
  assumes "is_block_mode blk v" "blk \<noteq> []" "\<forall>x\<in>set blk. x = c"
  shows "v = c"
proof (rule ccontr)
  assume "v \<noteq> c"
  then have "v \<notin> set blk" using assms(3) by auto
  then have "count_list blk v = 0" by (simp add: count_list_0_iff)
  moreover have "c \<in> set blk" using assms(2,3) by (cases blk) auto
  then have "0 < count_list blk c" by (simp add: count_list_0_iff zero_less_iff_neq_zero)
  moreover have "count_list blk c \<le> count_list blk v" using assms(1) by (simp add: is_block_mode_def)
  ultimately show False by simp
qed

lemma length_block_at: "length (block_at img ky kx a b) = ky * kx"
  by (simp add: block_at_def length_concat comp_def sum_list_triv)

lemma block_at_nonempty: "0 < ky \<Longrightarrow> 0 < kx \<Longrightarrow> block_at img ky kx a b \<noteq> []"
  using length_block_at [of img ky kx a b] by auto

lemma downscale_neg:
  assumes "sy \<le> 0 \<or> sx \<le> 0"
  shows "downscale_by_mode img sy sx =
         Inl (if sy = 0 \<or> sx = 0 then ZeroDivisionError else ValueError)"
proof (cases "sy = 0 \<or> sx = 0")
  case True
  then show ?thesis by (simp add: downscale_by_mode_def)
next
  case False
  define H2 where "H2 = (int (height img) div sy) * sy"
  define W2 where "W2 = (int (width img) div sx) * sx"
  define n where "n = length (concat (map (py_take W2) (py_take H2 (data img))))"
  have "np_reshape n [H2 div sy, sy, W2 div sx, sx] = Inl ValueError"
  proof (cases "sy < 0")
    case True
    have "int (height img) div sy \<le> 0"
      using True by (simp add: div_nonneg_neg_le0)
    then have "0 \<le> H2" using True by (simp add: H2_def mult_nonpos_nonpos)
    then have "H2 div sy \<le> 0" using True by (simp add: div_nonneg_neg_le0)
    then consider "H2 div sy < 0" | "H2 div sy = 0" by linarith
    then show ?thesis
      using True by cases (simp_all add: np_reshape_two_unknown np_reshape_zero_unknown)
  next
    case sy: False
    with False assms have sx: "sx < 0" and sy': "0 < sy" by auto
    have "int (width img) div sx \<le> 0"
      using sx by (simp add: div_nonneg_neg_le0)
    then have "0 \<le> W2" using sx by (simp add: W2_def mult_nonpos_nonpos)
    then have "W2 div sx \<le> 0" using sx by (simp add: div_nonneg_neg_le0)
    then consider "W2 div sx < 0" | "W2 div sx = 0" by linarith
    then show ?thesis
      using sx by cases (simp_all add: np_reshape_two_unknown np_reshape_zero_unknown)
  qed
  then show ?thesis
    unfolding downscale_by_mode_def Let_def H2_def [symmetric] W2_def [symmetric]
      n_def [symmetric]
    using False by simp
qed

text \<open>
  Claim C1. For a well-formed indexed image of \<open>H \<times> W\<close> indices and positive block sizes
  \<open>sy\<close>, \<open>sx\<close>, \<open>downscale_by_mode\<close> returns an image of exactly \<open>H div sy\<close> rows and
  \<open>W div sx\<close> columns with the same palette. Only full blocks are read (trailing rows and
  columns are dropped, nothing is padded): entry \<open>(a, b)\<close> of the output is the value that
  occurs most often in the \<open>sy \<times> sx\<close> block at block row \<open>a\<close> and block column \<open>b\<close>, the
  lowest such value on a tie; a block holding the single colour \<open>c\<close> gives \<open>c\<close>.
\<close>

theorem downscale_by_mode_majority:
  assumes "well_formed img" and "0 < sy" and "0 < sx"
  shows "\<exists>out. downscale_by_mode img sy sx = Inr out \<and> well_formed out \<and>
           height out = height img div nat sy \<and> width out = width img div nat sx \<and>
           palette out = palette img \<and>
           (\<forall>a<height out. \<forall>b<width out.
              (\<forall>r<nat sy. \<forall>c<nat sx.
                 a * nat sy + r < height img \<and> b * nat sx + c < width img) \<and>
              is_block_mode (block_at img (nat sy) (nat sx) a b) (data out ! a ! b) \<and>
              (\<forall>c. (\<forall>x\<in>set (block_at img (nat sy) (nat sx) a b). x = c)
                    \<longrightarrow> data out ! a ! b = c))"
proof -
  define ky kx where "ky = nat sy" and "kx = nat sx"
  have ky: "0 < ky" and kx: "0 < kx" and sy: "sy = int ky" and sx: "sx = int kx"
    using assms by (simp_all add: ky_def kx_def)
  define out where "out = \<lparr>height = height img div ky, width = width img div kx,
              data = map (\<lambda>a. map (\<lambda>b. block_mode (block_at img ky kx a b))
                               [0..<width img div kx]) [0..<height img div ky],
              palette = palette img\<rparr>"
  have res: "downscale_by_mode img sy sx = Inr out"
    unfolding sy sx out_def by (rule downscale_by_mode_pos [OF assms(1) ky kx])
  have wf: "well_formed out"
    by (simp add: well_formed_def out_def list_all_iff)
  have cell: "data out ! a ! b = block_mode (block_at img ky kx a b)"
    if "a < height out" "b < width out" for a b
    using that by (simp add: out_def)
  have inside: "a * ky + r < height img \<and> b * kx + c < width img"
    if "a < height out" "b < width out" "r < ky" "c < kx" for a b r c
  proof -
    have "a * ky + r < Suc a * ky" using that by simp
    also have "\<dots> \<le> (height img div ky) * ky"
      using that by (intro mult_le_mono1) (simp add: out_def)
    also have "\<dots> \<le> height img" by simp
    finally have 1: "a * ky + r < height img" .
    have "b * kx + c < Suc b * kx" using that by simp
    also have "\<dots> \<le> (width img div kx) * kx"
      using that by (intro mult_le_mono1) (simp add: out_def)
    also have "\<dots> \<le> width img" by simp
    finally have 2: "b * kx + c < width img" .
    from 1 2 show ?thesis ..
  qed
  have mode: "is_block_mode (block_at img ky kx a b) (data out ! a ! b)"
    if "a < height out" "b < width out" for a b
    using that by (simp add: cell block_mode_is_mode)
  have mono: "data out ! a ! b = c"
    if "a < height out" "b < width out" "\<forall>x\<in>set (block_at img ky kx a b). x = c" for a b c
    using is_block_mode_monochrome [OF mode [OF that(1,2)] block_at_nonempty [OF ky kx] that(3)] .
  have "height out = height img div ky" "width out = width img div kx"
    "palette out = palette img"
    by (simp_all add: out_def)
  with res wf inside mode mono show ?thesis
    unfolding ky_def [symmetric] kx_def [symmetric] by blast
qed

theorem downscale_by_mode_majority_witness:
  "well_formed \<lparr>height = 2, width = 5, data = [[1, 1, 2, 3, 7], [1, 0, 3, 3, 7]], palette = []\<rparr>
   \<and> (0::int) < 2 \<and>
   (\<exists>out. downscale_by_mode
       \<lparr>height = 2, width = 5, data = [[1, 1, 2, 3, 7], [1, 0, 3, 3, 7]], palette = []\<rparr> 2 2
       = Inr out \<and> height out = 1 \<and> width out = 2 \<and>
     is_block_mode [1, 1, 1, 0] (data out ! 0 ! 0) \<and>
     is_block_mode [2, 3, 3, 3] (data out ! 0 ! 1))"
proof -
  let ?img = "\<lparr>height = 2, width = 5, data = [[1, 1, 2, 3, 7], [1, 0, 3, 3, 7 :: 8 word]],
               palette = []\<rparr>"
  have wf: "well_formed ?img" by (simp add: well_formed_def)
  have b0: "block_at ?img 2 2 0 0 = [1, 1, 1, 0]"
    and b1: "block_at ?img 2 2 0 1 = [2, 3, 3, 3]"
    by (simp_all add: block_at_def upt_conv_Cons numeral_2_eq_2)
  from downscale_by_mode_majority [OF wf, of 2 2]
  obtain out where out: "downscale_by_mode ?img 2 2 = Inr out"
    "height out = 1" "width out = 2"
    and cells: "\<forall>a<height out. \<forall>b<width out.
       is_block_mode (block_at ?img 2 2 a b) (data out ! a ! b)"
    by auto
  from cells out(2,3) have "is_block_mode (block_at ?img 2 2 0 0) (data out ! 0 ! 0)"
    "is_block_mode (block_at ?img 2 2 0 1) (data out ! 0 ! 1)"
    by simp_all
  then have "is_block_mode [1, 1, 1, 0] (data out ! 0 ! 0)"
    "is_block_mode [2, 3, 3, 3] (data out ! 0 ! 1)"
    unfolding b0 b1 .
  with wf out show ?thesis by simp
qed

text \<open>
  Claim C7. With \<open>sy \<le> 0\<close> or \<open>sx \<le> 0\<close> the function never returns an image and never
  replaces the block size by another one: a zero block size raises
  \<^verbatim>\<open>ZeroDivisionError\<close> at \<^verbatim>\<open>H // sy\<close> or \<^verbatim>\<open>W // sx\<close>, and a negative one (with no zero)
  raises \<^verbatim>\<open>ValueError\<close> at the first \<^verbatim>\<open>reshape\<close>. This holds for every image.
\<close>

theorem downscale_by_mode_nonpositive_fails:
  assumes "sy \<le> 0 \<or> sx \<le> 0"
  shows "downscale_by_mode img sy sx =
         Inl (if sy = 0 \<or> sx = 0 then ZeroDivisionError else ValueError)"
  using assms by (rule downscale_neg)

theorem downscale_by_mode_nonpositive_fails_witness:
  "((-2::int) \<le> 0 \<or> (3::int) \<le> 0) \<and>
   downscale_by_mode \<lparr>height = 2, width = 3, data = [[1, 1, 2], [1, 0, 3]], palette = []\<rparr>
     (-2) 3 = Inl ValueError \<and>
   downscale_by_mode \<lparr>height = 2, width = 3, data = [[1, 1, 2], [1, 0, 3]], palette = []\<rparr>
     0 0 = Inl ZeroDivisionError"
  using downscale_by_mode_nonpositive_fails
          [of "-2" 3 "\<lparr>height = 2, width = 3, data = [[1, 1, 2], [1, 0, 3]], palette = []\<rparr>"]
        downscale_by_mode_nonpositive_fails
          [of 0 0 "\<lparr>height = 2, width = 3, data = [[1, 1, 2], [1, 0, 3]], palette = []\<rparr>"]
  by simp

section \<open>Proofs: palette selection\<close>

lemma argmin_loop_first_min:
  "first_min pre bi \<Longrightarrow> bv = pre ! bi \<Longrightarrow> i = length pre \<Longrightarrow>
   first_min (pre @ xs) (argmin_loop xs i bi bv)"
proof (induction xs arbitrary: pre i bi bv)
  case Nil
  then show ?case by simp
next
  case (Cons x xs)
  show ?case
  proof (cases "x < bv")
    case True
    have "first_min (pre @ [x]) (length pre)"
      using Cons.prems True
      by (auto simp: first_min_def nth_append less_Suc_eq intro: less_imp_le order.strict_trans2)
    from Cons.IH [OF this, of x "Suc i"] Cons.prems True show ?thesis by simp
  next
    case False
    have "first_min (pre @ [x]) bi"
      using Cons.prems False
      by (auto simp: first_min_def nth_append less_Suc_eq)
    from Cons.IH [OF this, of bv "Suc i"] Cons.prems False show ?thesis
      by (simp add: first_min_def nth_append)
  qed
qed

lemma argmin_first_min:
  assumes "xs \<noteq> []"
  shows "first_min xs (argmin xs)"
proof -
  from assms obtain x rest where xs: "xs = x # rest" by (cases xs) auto
  have "first_min [x] 0" by (simp add: first_min_def)
  from argmin_loop_first_min [OF this, of x 1 rest] xs show ?thesis
    by (simp add: argmin_def)
qed

lemma nearest_chosen_distance_snoc:
  assumes "chosen \<noteq> []"
  shows "nearest_chosen_distance cand_lab (chosen @ [idx]) c =
         min (nearest_chosen_distance cand_lab chosen c) (deltaE76 c (cand_lab ! idx))"
proof -
  let ?f = "\<lambda>i. deltaE76 c (cand_lab ! i)"
  have "Min (insert (?f idx) (?f ` set chosen)) = min (?f idx) (Min (?f ` set chosen))"
    using assms by (intro Min_insert) auto
  then show ?thesis by (simp add: nearest_chosen_distance_def min.commute)
qed

lemma nearest_chosen_distance_single:
  "nearest_chosen_distance cand_lab [i] c = deltaE76 c (cand_lab ! i)"
  by (simp add: nearest_chosen_distance_def)

lemma fp_loop_spec:
  assumes "chosen \<noteq> []" and "dmin = map (nearest_chosen_distance cand_lab chosen) cand_lab"
    and "cand_lab \<noteq> []"
  shows "\<exists>res. fst (fp_loop cand_lab n (chosen, dmin)) = res \<and>
           length res = length chosen + n \<and> take (length chosen) res = chosen \<and>
           (\<forall>t. length chosen \<le> t \<and> t < length res \<longrightarrow>
              first_max (map (nearest_chosen_distance cand_lab (take t res)) cand_lab) (res ! t))"
  using assms(1,2)
proof (induction n arbitrary: chosen dmin)
  case 0
  then show ?case by auto
next
  case (Suc n)
  define idx where "idx = argmax dmin"
  define dmin' where
    "dmin' = map2 min dmin (map (\<lambda>c. deltaE76 c (cand_lab ! idx)) cand_lab)"
  have d': "dmin' = map (nearest_chosen_distance cand_lab (chosen @ [idx])) cand_lab"
    unfolding dmin'_def Suc.prems(2)
    by (rule nth_equalityI) (simp_all add: nearest_chosen_distance_snoc [OF Suc.prems(1)])
  have "dmin \<noteq> []" using Suc.prems(2) assms(3) by simp
  then have fm: "first_max dmin idx" unfolding idx_def by (rule argmax_first_max)
  from Suc.IH [of "chosen @ [idx]" dmin', OF _ d']
  obtain res where res: "fst (fp_loop cand_lab n (chosen @ [idx], dmin')) = res"
    "length res = length chosen + Suc n" "take (Suc (length chosen)) res = chosen @ [idx]"
    and later: "\<forall>t. Suc (length chosen) \<le> t \<and> t < length res \<longrightarrow>
              first_max (map (nearest_chosen_distance cand_lab (take t res)) cand_lab) (res ! t)"
    by auto
  have pre: "take (length chosen) res = chosen"
  proof -
    have "take (length chosen) res = take (length chosen) (take (Suc (length chosen)) res)"
      by (simp add: min_def)
    then show ?thesis by (simp add: res(3))
  qed
  have at: "res ! length chosen = idx"
  proof -
    have "res ! length chosen = take (Suc (length chosen)) res ! length chosen" by simp
    then show ?thesis by (simp add: res(3))
  qed
  have now: "first_max (map (nearest_chosen_distance cand_lab (take (length chosen) res)) cand_lab)
               (res ! length chosen)"
    using fm by (simp add: pre at Suc.prems(2))
  have "first_max (map (nearest_chosen_distance cand_lab (take t res)) cand_lab) (res ! t)"
    if "length chosen \<le> t \<and> t < length res" for t
  proof (cases "t = length chosen")
    case True
    then show ?thesis using now by simp
  next
    case False
    with that later show ?thesis by simp
  qed
  moreover have "fst (fp_loop cand_lab (Suc n) (chosen, dmin)) = res"
    using res(1) by (simp add: idx_def dmin'_def Let_def)
  ultimately show ?case using res(2) pre by auto
qed

lemma farthest_point_palette_spec:
  assumes "cand_lab \<noteq> []" and "1 \<le> K"
  shows "\<exists>chosen. farthest_point_palette cand_lab K = Inr chosen \<and> length chosen = nat K \<and>
           farthest_point_spec cand_lab chosen"
proof -
  define seed where "seed = argmax (map chroma cand_lab)"
  define dmin where "dmin = map (\<lambda>c. deltaE76 c (cand_lab ! seed)) cand_lab"
  have seed: "first_max (map chroma cand_lab) seed"
    unfolding seed_def using assms(1) by (intro argmax_first_max) simp
  have d: "dmin = map (nearest_chosen_distance cand_lab [seed]) cand_lab"
    by (simp add: dmin_def nearest_chosen_distance_single)
  from fp_loop_spec [of "[seed]" dmin cand_lab "nat (K - 1)", OF _ d assms(1)]
  obtain res where res: "fst (fp_loop cand_lab (nat (K - 1)) ([seed], dmin)) = res"
    "length res = 1 + nat (K - 1)" "take 1 res = [seed]"
    and later: "\<forall>t. 1 \<le> t \<and> t < length res \<longrightarrow>
        first_max (map (nearest_chosen_distance cand_lab (take t res)) cand_lab) (res ! t)"
    by auto
  have r0: "res ! 0 = seed"
  proof -
    have "res ! 0 = take 1 res ! 0" by simp
    then show ?thesis by (simp only: res(3)) simp
  qed
  have "farthest_point_palette cand_lab K = Inr res"
    using assms(1) res(1)
    by (simp add: farthest_point_palette_def Let_def seed_def dmin_def)
  moreover have "length res = nat K" using res(2) assms(2) by simp
  moreover have "farthest_point_spec cand_lab res"
    using seed later by (simp add: farthest_point_spec_def r0)
  ultimately show ?thesis by blast
qed

lemma farthest_point_spec_in_range:
  assumes "farthest_point_spec cand_lab chosen" "t < length chosen"
  shows "chosen ! t < length cand_lab"
proof (cases "t = 0")
  case True
  with assms(1) show ?thesis by (simp add: farthest_point_spec_def first_max_def)
next
  case False
  with assms have "first_max (map (nearest_chosen_distance cand_lab (take t chosen)) cand_lab)
     (chosen ! t)"
    by (simp add: farthest_point_spec_def)
  then show ?thesis by (simp add: first_max_def)
qed

section \<open>Proofs: quantization\<close>

lemma py_bound_nat: "k \<le> n \<Longrightarrow> py_bound n (int k) = k"
  by (simp add: py_bound_def)

lemma py_slice_nat:
  "s \<le> e \<Longrightarrow> e \<le> length xs \<Longrightarrow> py_slice xs (int s) (int e) = take (e - s) (drop s xs)"
  by (simp add: py_slice_def py_bound_nat)

lemma py_slice_assign_nat:
  "s \<le> e \<Longrightarrow> e \<le> length xs \<Longrightarrow>
   py_slice_assign xs (int s) (int e) vals = take s xs @ vals @ drop e xs"
  by (simp add: py_slice_assign_def py_bound_nat max_def)

lemma quantize_chunk_one_pass:
  "quantize_chunk lab_pal xs = quantize_one_pass lab_pal xs"
  by (simp add: quantize_chunk_def quantize_one_pass_def nearest_index_def)

lemma quantize_one_pass_take_drop:
  "quantize_one_pass lab_pal (take k (drop s xs)) = take k (drop s (quantize_one_pass lab_pal xs))"
  by (simp add: quantize_one_pass_def take_map drop_map)

lemma quantize_loop_from:
  assumes chunk: "1 \<le> map_chunk" and pal: "lab_pal \<noteq> []"
    and len: "length out_idx = length flat_rgb" and s: "s \<le> length flat_rgb"
  shows "quantize_loop lab_pal flat_rgb map_chunk (int s) out_idx =
         Some (Inr (take s out_idx @ drop s (quantize_one_pass lab_pal flat_rgb)))"
  using len s
proof (induction "length flat_rgb - s" arbitrary: s out_idx rule: less_induct)
  case less
  let ?n = "length flat_rgb"
  let ?ref = "quantize_one_pass lab_pal flat_rgb"
  have lref: "length ?ref = ?n" by (simp add: quantize_one_pass_def)
  show ?case
  proof (cases "s < ?n")
    case False
    with less.prems have "s = ?n" by simp
    then show ?thesis
      using less.prems lref by (subst quantize_loop.simps) simp
  next
    case True
    define e where "e = nat (min (int s + map_chunk) (int ?n))"
    have e: "min (int s + map_chunk) (int ?n) = int e" and se: "s < e" and en: "e \<le> ?n"
      using True chunk by (auto simp: e_def)
    define out' where
      "out' = take s out_idx @ take (e - s) (drop s ?ref) @ drop e out_idx"
    have step: "py_slice_assign out_idx (int s) (int e)
                  (quantize_chunk lab_pal (py_slice flat_rgb (int s) (int e))) = out'"
      using se en less.prems
      by (simp add: py_slice_nat py_slice_assign_nat quantize_chunk_one_pass
          quantize_one_pass_take_drop out'_def)
    have len': "length out' = ?n"
      using se en less.prems lref by (simp add: out'_def)
    have "quantize_loop lab_pal flat_rgb map_chunk (int e) out' =
          Some (Inr (take e out' @ drop e ?ref))"
      using se en True len' by (intro less.hyps) auto
    moreover have "take e out' = take s out_idx @ take (e - s) (drop s ?ref)"
      using se en less.prems lref by (simp add: out'_def)
    moreover have "take (e - s) (drop s ?ref) @ drop e ?ref = drop s ?ref"
    proof -
      have "drop e ?ref = drop (e - s) (drop s ?ref)" using se by simp
      then show ?thesis by (simp only: append_take_drop_id)
    qed
    ultimately have "quantize_loop lab_pal flat_rgb map_chunk (int e) out' =
          Some (Inr (take s out_idx @ drop s ?ref))"
      by simp
    then show ?thesis
      using True pal by (subst quantize_loop.simps) (simp add: e step Let_def)
  qed
qed

lemma quantize_loop_total:
  assumes "1 \<le> map_chunk" "lab_pal \<noteq> []" "length out_idx = length flat_rgb"
  shows "quantize_loop lab_pal flat_rgb map_chunk 0 out_idx =
         Some (Inr (quantize_one_pass lab_pal flat_rgb))"
  using quantize_loop_from [OF assms, of 0] by simp

section \<open>Proofs: posterize\<close>

lemma farthest_point_palette_in_range:
  assumes "farthest_point_palette cand_lab K = Inr chosen" and "1 \<le> K"
  shows "\<forall>i\<in>set chosen. i < length cand_lab"
proof -
  from assms(1) have ne: "cand_lab \<noteq> []"
    by (auto simp: farthest_point_palette_def split: if_splits)
  from farthest_point_palette_spec [OF ne assms(2)] assms(1)
  have "farthest_point_spec cand_lab chosen" by auto
  then show ?thesis
    using farthest_point_spec_in_range by (auto simp: in_set_conv_nth)
qed

lemma length_kmedoids_one_iter:
  "length (kmedoids_one_iter cand_lab palette_idx) = length palette_idx"
  by (simp add: kmedoids_one_iter_def Let_def)

lemma kmedoids_one_iter_in_range:
  assumes "\<forall>i\<in>set palette_idx. i < length cand_lab"
  shows "\<forall>i\<in>set (kmedoids_one_iter cand_lab palette_idx). i < length cand_lab"
proof -
  have pick: "members ! argmin SD < length cand_lab"
    if "members \<noteq> []" "length SD = length members" "set members \<subseteq> {0..<length cand_lab}"
    for members :: "nat list" and SD :: "real list"
  proof -
    from that have "SD \<noteq> []" by auto
    then have "argmin SD < length SD" using argmin_first_min by (auto simp: first_min_def)
    then have "members ! argmin SD \<in> set members" using that(2) by simp
    with that(3) show ?thesis by auto
  qed
  show ?thesis
    unfolding kmedoids_one_iter_def Let_def
    using assms by (auto intro!: pick)
qed

lemma build_palette_length:
  assumes "build_palette img_np colors sample_step bucket refine = Inr palette_rgb"
  shows "length palette_rgb = nat (max 2 colors)"
proof -
  from assms obtain sampled pal_idx where
    fp: "farthest_point_palette (map rgb_to_lab (dedup_colors sampled bucket)) (max 2 colors)
          = Inr pal_idx"
    and p: "palette_rgb = map (\<lambda>i. dedup_colors sampled bucket ! i)
        (if refine then kmedoids_one_iter (map rgb_to_lab (dedup_colors sampled bucket)) pal_idx
         else pal_idx)"
    by (auto simp: build_palette_def Let_def split: sum.splits)
  from fp have ne: "map rgb_to_lab (dedup_colors sampled bucket) \<noteq> []"
    by (auto simp: farthest_point_palette_def split: if_splits)
  from farthest_point_palette_spec [OF ne, of "max 2 colors"] fp
  have "length pal_idx = nat (max 2 colors)" by auto
  then show ?thesis by (simp add: p length_kmedoids_one_iter)
qed

lemma first_occurrences_nonempty:
  assumes "xs \<noteq> []"
  shows "first_occurrences xs \<noteq> []"
proof -
  have keep: "foldl (\<lambda>acc x. if x \<in> set acc then acc else acc @ [x]) acc ys \<noteq> []"
    if "acc \<noteq> []" for acc :: "'a list" and ys
    using that by (induction ys arbitrary: acc) auto
  from assms obtain x rest where "xs = x # rest" by (cases xs) auto
  then show ?thesis using keep [of "[x]" rest] by (simp add: first_occurrences_def)
qed

lemma arange_step_nonempty:
  assumes "0 < n" and "0 < step"
  shows "arange_step n step \<noteq> []"
proof -
  have "step \<le> n + step - 1" using assms by simp
  then have "step div step \<le> (n + step - 1) div step" by (rule div_le_mono)
  then have "0 < (n + step - 1) div step" using assms by simp
  then show ?thesis by (simp add: arange_step_def)
qed

lemma build_palette_succeeds:
  assumes "0 < img_h img_np" and "0 < img_w img_np" and "0 < sample_step"
  shows "\<exists>palette_rgb. build_palette img_np colors sample_step bucket refine = Inr palette_rgb"
proof -
  define sampled where "sampled = concat (map (\<lambda>y. map (\<lambda>x. img_px img_np ! y ! x)
      (arange_step (img_w img_np) sample_step)) (arange_step (img_h img_np) sample_step))"
  obtain y ys where ys: "arange_step (img_h img_np) sample_step = y # ys"
    using arange_step_nonempty [OF assms(1,3)] by (cases "arange_step (img_h img_np) sample_step") auto
  obtain x xs where xs: "arange_step (img_w img_np) sample_step = x # xs"
    using arange_step_nonempty [OF assms(2,3)] by (cases "arange_step (img_w img_np) sample_step") auto
  have s: "sample_uniform_grid img_np sample_step = Inr sampled"
    using assms(3) by (simp add: sample_uniform_grid_def sampled_def)
  have "sampled \<noteq> []" by (simp add: sampled_def ys xs)
  then have "dedup_colors sampled bucket \<noteq> []"
    unfolding dedup_colors_def by (intro first_occurrences_nonempty) simp
  then have "map rgb_to_lab (dedup_colors sampled bucket) \<noteq> []" by simp
  moreover have "1 \<le> max 2 colors" by simp
  ultimately obtain chosen where
    "farthest_point_palette (map rgb_to_lab (dedup_colors sampled bucket)) (max 2 colors)
       = Inr chosen"
    using farthest_point_palette_spec by blast
  then show ?thesis by (simp add: build_palette_def s Let_def)
qed

lemma rows_of_map_concat:
  assumes "\<forall>xs\<in>set xss. length xs = k"
  shows "rows_of (length xss) k (map f (concat xss)) = map (map f) xss"
proof -
  have "map f (concat xss) = concat (map (map f) xss)" by (simp add: map_concat)
  moreover have "rows_of (length (map (map f) xss)) k (concat (map (map f) xss)) = map (map f) xss"
    using assms by (intro rows_of_concat) auto
  ultimately show ?thesis by simp
qed

lemma posterize_diverse_cases:
  assumes wf: "rgb_well_formed img_np"
    and bp: "build_palette img_np colors sample_step bucket refine = Inr palette_rgb"
    and chunk: "1 \<le> map_chunk"
  shows "posterize_diverse img_np colors sample_step bucket refine map_chunk =
         (if 256 < length palette_rgb then Some (Inl ValueError)
          else Some (Inr \<lparr>height = img_h img_np, width = img_w img_np,
                    data = map (map (\<lambda>c. word_of_nat
                              (nearest_index (map rgb_to_lab palette_rgb) (rgb_to_lab c))))
                            (img_px img_np),
                    palette = concat (map (\<lambda>(r, g, b). [r, g, b]) palette_rgb)
                                @ replicate (768 - 3 * length palette_rgb) 0\<rparr>))"
proof -
  let ?flat = "concat (img_px img_np)"
  let ?lab = "map rgb_to_lab palette_rgb"
  have K: "length palette_rgb = nat (max 2 colors)" by (rule build_palette_length [OF bp])
  then have ne: "?lab \<noteq> []" by auto
  have loop: "quantize_loop ?lab ?flat map_chunk 0 (replicate (length ?flat) 0) =
              Some (Inr (quantize_one_pass ?lab ?flat))"
    by (rule quantize_loop_total [OF chunk ne]) simp
  have uni: "\<forall>xs\<in>set (img_px img_np). length xs = img_w img_np"
    and rows: "length (img_px img_np) = img_h img_np"
    using wf by (simp_all add: rgb_well_formed_def list_all_iff)
  have len: "length (quantize_one_pass ?lab ?flat) = img_h img_np * img_w img_np"
    using length_concat_uniform [OF uni] rows by (simp add: quantize_one_pass_def)
  have rs: "np_reshape (length (quantize_one_pass ?lab ?flat))
              [int (img_h img_np), int (img_w img_np)] = Inr [img_h img_np, img_w img_np]"
    using np_reshape_known [of "[int (img_h img_np), int (img_w img_np)]"
        "length (quantize_one_pass ?lab ?flat)"]
    by (simp add: len)
  have data: "rows_of (img_h img_np) (img_w img_np) (quantize_one_pass ?lab ?flat) =
     map (map (\<lambda>c. word_of_nat (nearest_index ?lab (rgb_to_lab c)))) (img_px img_np)"
    using rows_of_map_concat [OF uni] rows
    by (simp add: quantize_one_pass_def nearest_index_def)
  have plen: "length (concat (map (\<lambda>(r, g, b). [r, g, b]) palette_rgb)) = 3 * length palette_rgb"
    by (induction palette_rgb) auto
  have big: "768 < 3 * length palette_rgb + (768 - 3 * length palette_rgb)
             \<longleftrightarrow> 256 < length palette_rgb"
    by arith
  show ?thesis
    unfolding posterize_diverse_def bp Let_def
    by (simp add: loop rs data plen big)
qed

lemma posterize_diverse_result:
  assumes wf: "rgb_well_formed img_np"
    and bp: "build_palette img_np colors sample_step bucket refine = Inr palette_rgb"
    and chunk: "1 \<le> map_chunk" and small: "colors \<le> 256"
  shows "posterize_diverse img_np colors sample_step bucket refine map_chunk =
         Some (Inr \<lparr>height = img_h img_np, width = img_w img_np,
                    data = map (map (\<lambda>c. word_of_nat
                              (nearest_index (map rgb_to_lab palette_rgb) (rgb_to_lab c))))
                            (img_px img_np),
                    palette = concat (map (\<lambda>(r, g, b). [r, g, b]) palette_rgb)
                                @ replicate (768 - 3 * length palette_rgb) 0\<rparr>)"
proof -
  have "length palette_rgb = nat (max 2 colors)" by (rule build_palette_length [OF bp])
  with small have "\<not> 256 < length palette_rgb" by auto
  with posterize_diverse_cases [OF wf bp chunk] show ?thesis by simp
qed

section \<open>Proofs: the test image\<close>

lemma sample_example_image: "sample_uniform_grid example_image 4 = Inr [(200, 10, 10)]"
  by (simp add: sample_uniform_grid_def arange_step_def example_image_def)

lemma dedup_colors_example: "dedup_colors [(200, 10, 10)] 16 = [(200, 8, 8)]"
  by (simp add: dedup_colors_def first_occurrences_def bucket_channel_def)

lemma farthest_point_palette_single: "farthest_point_palette [c] 2 = Inr [0, 0]"
  by (simp add: farthest_point_palette_def argmax_def)

lemma build_palette_example:
  "build_palette example_image 2 4 16 False = Inr [(200, 8, 8), (200, 8, 8)]"
  by (simp add: build_palette_def sample_example_image dedup_colors_example
      farthest_point_palette_single)

lemma rgb_well_formed_example: "rgb_well_formed example_image"
  by (simp add: rgb_well_formed_def example_image_def)

lemma nearest_index_tie: "nearest_index [q, q] p = 0"
  by (simp add: nearest_index_def argmin_def)

lemma posterize_diverse_example:
  "posterize_diverse example_image 2 4 16 False 400000 =
     Some (Inr \<lparr>height = 2, width = 2, data = [[0, 0], [0, 0]],
                palette = [200, 8, 8, 200, 8, 8] @ replicate 762 0\<rparr>)"
proof -
  have "posterize_diverse example_image 2 4 16 False 400000 =
         Some (Inr \<lparr>height = img_h example_image, width = img_w example_image,
                    data = map (map (\<lambda>c. word_of_nat
                              (nearest_index (map rgb_to_lab [(200, 8, 8), (200, 8, 8)])
                                 (rgb_to_lab c))))
                            (img_px example_image),
                    palette = concat (map (\<lambda>(r, g, b). [r, g, b]) [(200, 8, 8), (200, 8, 8)])
                                @ replicate (768 - 3 * length [(200, 8, 8), (200 :: 8 word, 8 :: 8 word, 8 :: 8 word)]) 0\<rparr>)"
    by (rule posterize_diverse_result [OF rgb_well_formed_example build_palette_example]) simp_all
  then show ?thesis
    by (simp add: example_image_def nearest_index_tie)
qed

section \<open>Claims on palette selection and quantization\<close>

text \<open>
  Claim C2. For a non-empty candidate list and \<open>K \<ge> 2\<close>, farthest-point selection returns
  exactly \<open>K\<close> indices into the candidate list. The first is the first candidate of maximal
  chroma. For every later position \<open>t\<close>, the index chosen is the first candidate whose
  distance to the nearest of the \<open>t\<close> indices chosen before is maximal, and adding it turns
  every candidate's nearest-chosen distance into the minimum of the old one and the
  distance to the new pick.
\<close>

theorem farthest_point_palette_greedy:
  assumes "cand_lab \<noteq> []" and "2 \<le> K"
  shows "\<exists>chosen. farthest_point_palette cand_lab K = Inr chosen \<and> length chosen = nat K \<and>
           (\<forall>t<nat K. chosen ! t < length cand_lab) \<and>
           first_max (map chroma cand_lab) (chosen ! 0) \<and>
           (\<forall>t. 1 \<le> t \<and> t < nat K \<longrightarrow>
              first_max (map (nearest_chosen_distance cand_lab (take t chosen)) cand_lab)
                (chosen ! t) \<and>
              (\<forall>c. nearest_chosen_distance cand_lab (take (Suc t) chosen) c =
                   min (nearest_chosen_distance cand_lab (take t chosen) c)
                       (deltaE76 c (cand_lab ! (chosen ! t)))))"
proof -
  from assms(2) have "1 \<le> K" by simp
  from farthest_point_palette_spec [OF assms(1) this]
  obtain chosen where res: "farthest_point_palette cand_lab K = Inr chosen"
    and len: "length chosen = nat K" and spec: "farthest_point_spec cand_lab chosen"
    by blast
  have range: "chosen ! t < length cand_lab" if "t < nat K" for t
    using farthest_point_spec_in_range [OF spec, of t] that len by simp
  have seed: "first_max (map chroma cand_lab) (chosen ! 0)"
    using spec by (simp add: farthest_point_spec_def)
  have pick: "first_max (map (nearest_chosen_distance cand_lab (take t chosen)) cand_lab)
                (chosen ! t)"
    if "1 \<le> t \<and> t < nat K" for t
    using spec that len by (simp add: farthest_point_spec_def)
  have upd: "nearest_chosen_distance cand_lab (take (Suc t) chosen) c =
               min (nearest_chosen_distance cand_lab (take t chosen) c)
                   (deltaE76 c (cand_lab ! (chosen ! t)))"
    if "1 \<le> t \<and> t < nat K" for t c
  proof -
    have "take (Suc t) chosen = take t chosen @ [chosen ! t]"
      using that len by (simp add: take_Suc_conv_app_nth)
    moreover have "take t chosen \<noteq> []" using that len by auto
    ultimately show ?thesis by (simp add: nearest_chosen_distance_snoc)
  qed
  from res len range seed pick upd show ?thesis by blast
qed

theorem farthest_point_palette_greedy_witness:
  "[(50, 0, 0), (60, 30, 40), (70, 3, 4)] \<noteq> ([] :: lab list) \<and> (2::int) \<le> 3 \<and>
   (\<exists>chosen. farthest_point_palette [(50, 0, 0), (60, 30, 40), (70, 3, 4)] 3 = Inr chosen \<and>
      length chosen = 3 \<and>
      first_max (map chroma [(50, 0, 0), (60, 30, 40), (70, 3, 4)]) (chosen ! 0) \<and>
      first_max (map (nearest_chosen_distance [(50, 0, 0), (60, 30, 40), (70, 3, 4)]
                        (take 1 chosen)) [(50, 0, 0), (60, 30, 40), (70, 3, 4)]) (chosen ! 1))"
proof -
  let ?cand = "[(50, 0, 0), (60, 30, 40), (70, 3, 4)] :: lab list"
  from farthest_point_palette_greedy [of ?cand 3]
  obtain chosen where "farthest_point_palette ?cand 3 = Inr chosen" "length chosen = 3"
    "first_max (map chroma ?cand) (chosen ! 0)"
    "\<forall>t. 1 \<le> t \<and> t < nat 3 \<longrightarrow>
        first_max (map (nearest_chosen_distance ?cand (take t chosen)) ?cand) (chosen ! t)"
    by auto
  moreover from this(4) have
    "first_max (map (nearest_chosen_distance ?cand (take 1 chosen)) ?cand) (chosen ! 1)"
    by simp
  ultimately show ?thesis by simp
qed

text \<open>
  Claim C5. For every chunk size \<open>map_chunk \<ge> 1\<close>, every non-empty palette and every
  initial content of the output buffer, the chunked loop returns, and what it returns is
  the assignment computed for all pixels in one pass.
\<close>

theorem quantize_loop_chunking_invariant:
  assumes "1 \<le> map_chunk" and "lab_pal \<noteq> []" and "length out_idx = length flat_rgb"
  shows "quantize_loop lab_pal flat_rgb map_chunk 0 out_idx =
         Some (Inr (quantize_one_pass lab_pal flat_rgb))"
  using assms by (rule quantize_loop_total)

theorem quantize_loop_chunking_invariant_witness:
  "(1::int) \<le> 2 \<and> [(50, 0, 0), (60, 30, 40)] \<noteq> ([] :: lab list) \<and>
   length [7, 7, 7 :: 8 word] = length [(1, 2, 3), (4, 5, 6), (7, 8, 9) :: rgb] \<and>
   quantize_loop [(50, 0, 0), (60, 30, 40)] [(1, 2, 3), (4, 5, 6), (7, 8, 9)] 2 0 [7, 7, 7] =
     Some (Inr (quantize_one_pass [(50, 0, 0), (60, 30, 40)] [(1, 2, 3), (4, 5, 6), (7, 8, 9)]))"
  using quantize_loop_chunking_invariant
          [of 2 "[(50, 0, 0), (60, 30, 40)]" "[7, 7, 7]" "[(1, 2, 3), (4, 5, 6), (7, 8, 9)]"]
  by simp

lemma nearest_index_first_min:
  assumes "lab_pal \<noteq> []"
  shows "first_min (map (\<lambda>q. deltaE76 p q) lab_pal) (nearest_index lab_pal p)"
  unfolding nearest_index_def using assms by (intro argmin_first_min) simp

lemma unat_nearest_index:
  assumes "lab_pal \<noteq> []" and "length lab_pal \<le> 256"
  shows "unat (word_of_nat (nearest_index lab_pal p) :: 8 word) = nearest_index lab_pal p"
proof -
  have "nearest_index lab_pal p < length lab_pal"
    using nearest_index_first_min [OF assms(1), of p] by (simp add: first_min_def)
  with assms(2) have "nearest_index lab_pal p < 256" by simp
  then show ?thesis by (simp add: unat_of_nat)
qed

text \<open>
  What \<open>posterize_diverse\<close> returns, when it returns an image: the palette has at most 256
  colours, the image has the size of the input, and the entry at \<open>(y, x)\<close> is the first
  index of a palette colour at minimal distance from the pixel at \<open>(y, x)\<close>.
\<close>

lemma posterize_diverse_returned:
  assumes wf: "rgb_well_formed img_np"
    and bp: "build_palette img_np colors sample_step bucket refine = Inr palette_rgb"
    and chunk: "1 \<le> map_chunk"
    and ret: "posterize_diverse img_np colors sample_step bucket refine map_chunk
                = Some (Inr pal)"
  shows "well_formed pal \<and> height pal = img_h img_np \<and> width pal = img_w img_np \<and>
         (\<forall>y<img_h img_np. \<forall>x<img_w img_np.
            first_min (map (\<lambda>q. deltaE76 (rgb_to_lab (img_px img_np ! y ! x)) q)
                         (map rgb_to_lab palette_rgb))
              (unat (data pal ! y ! x)))"
proof -
  let ?lab = "map rgb_to_lab palette_rgb"
  have K: "length palette_rgb = nat (max 2 colors)"
    by (rule build_palette_length [OF bp])
  from posterize_diverse_cases [OF wf bp chunk] ret
  have le: "length palette_rgb \<le> 256"
    and pal: "pal = \<lparr>height = img_h img_np, width = img_w img_np,
                    data = map (map (\<lambda>c. (word_of_nat
                              (nearest_index ?lab (rgb_to_lab c)) :: 8 word)))
                            (img_px img_np),
                    palette = concat (map (\<lambda>(r, g, b). [r, g, b]) palette_rgb)
                                @ replicate (768 - 3 * length palette_rgb) 0\<rparr>"
    by (simp_all split: if_splits)
  from K have ne: "?lab \<noteq> []" by auto
  from le have le': "length ?lab \<le> 256" by simp
  have rows: "length (img_px img_np) = img_h img_np"
    and cols: "\<forall>row\<in>set (img_px img_np). length row = img_w img_np"
    using wf by (simp_all add: rgb_well_formed_def list_all_iff)
  have wfp: "well_formed pal"
    using rows cols by (simp add: well_formed_def pal list_all_iff)
  have cell: "unat (data pal ! y ! x)
                = nearest_index ?lab (rgb_to_lab (img_px img_np ! y ! x))"
    if "y < img_h img_np" "x < img_w img_np" for y x
  proof -
    have "img_px img_np ! y \<in> set (img_px img_np)" using that(1) rows by simp
    with cols have "length (img_px img_np ! y) = img_w img_np" by blast
    with that rows show ?thesis
      by (simp add: pal unat_nearest_index [OF ne le'])
  qed
  have "first_min (map (\<lambda>q. deltaE76 (rgb_to_lab (img_px img_np ! y ! x)) q) ?lab)
          (unat (data pal ! y ! x))"
    if "y < img_h img_np" "x < img_w img_np" for y x
    unfolding cell [OF that] by (rule nearest_index_first_min [OF ne])
  moreover have "height pal = img_h img_np" "width pal = img_w img_np" by (simp_all add: pal)
  ultimately show ?thesis using wfp by blast
qed

text \<open>
  Claim C3. Let \<open>palette_rgb\<close> be the palette the builder returns for a well-formed image;
  it has \<open>K = max 2 colors\<close> entries. With a positive chunk size, \<open>posterize_diverse\<close>
  returns an image whenever \<open>colors \<le> 256\<close>, and in every image it returns (for more than
  256 colours \<^verbatim>\<open>putpalette\<close> raises, so there is none) the index of every pixel is less
  than \<open>K\<close> and is the index of a palette colour at minimal \<open>deltaE76\<close> distance from the
  pixel.
\<close>

theorem posterize_diverse_nearest_palette_colour:
  assumes "rgb_well_formed img_np"
    and "build_palette img_np colors sample_step bucket refine = Inr palette_rgb"
    and "1 \<le> map_chunk"
  shows "length palette_rgb = nat (max 2 colors) \<and>
         (colors \<le> 256 \<longrightarrow>
            (\<exists>pal. posterize_diverse img_np colors sample_step bucket refine map_chunk
                     = Some (Inr pal))) \<and>
         (\<forall>pal. posterize_diverse img_np colors sample_step bucket refine map_chunk
                  = Some (Inr pal) \<longrightarrow>
            well_formed pal \<and> height pal = img_h img_np \<and> width pal = img_w img_np \<and>
            (\<forall>y<img_h img_np. \<forall>x<img_w img_np.
               unat (data pal ! y ! x) < length palette_rgb \<and>
               (\<forall>j<length palette_rgb.
                  deltaE76 (rgb_to_lab (img_px img_np ! y ! x))
                           (rgb_to_lab (palette_rgb ! unat (data pal ! y ! x)))
                  \<le> deltaE76 (rgb_to_lab (img_px img_np ! y ! x))
                             (rgb_to_lab (palette_rgb ! j)))))"
proof -
  have K: "length palette_rgb = nat (max 2 colors)"
    by (rule build_palette_length [OF assms(2)])
  have total: "\<exists>pal. posterize_diverse img_np colors sample_step bucket refine map_chunk
                     = Some (Inr pal)"
    if "colors \<le> 256"
    using posterize_diverse_result [OF assms that] by blast
  have part: "well_formed pal \<and> height pal = img_h img_np \<and> width pal = img_w img_np \<and>
            (\<forall>y<img_h img_np. \<forall>x<img_w img_np.
               unat (data pal ! y ! x) < length palette_rgb \<and>
               (\<forall>j<length palette_rgb.
                  deltaE76 (rgb_to_lab (img_px img_np ! y ! x))
                           (rgb_to_lab (palette_rgb ! unat (data pal ! y ! x)))
                  \<le> deltaE76 (rgb_to_lab (img_px img_np ! y ! x))
                             (rgb_to_lab (palette_rgb ! j))))"
    if ret: "posterize_diverse img_np colors sample_step bucket refine map_chunk
               = Some (Inr pal)" for pal
  proof -
    note r = posterize_diverse_returned [OF assms ret]
    have "unat (data pal ! y ! x) < length palette_rgb \<and>
               (\<forall>j<length palette_rgb.
                  deltaE76 (rgb_to_lab (img_px img_np ! y ! x))
                           (rgb_to_lab (palette_rgb ! unat (data pal ! y ! x)))
                  \<le> deltaE76 (rgb_to_lab (img_px img_np ! y ! x))
                             (rgb_to_lab (palette_rgb ! j)))"
      if yx: "y < img_h img_np" "x < img_w img_np" for y x
    proof -
      let ?p = "rgb_to_lab (img_px img_np ! y ! x)"
      let ?d = "map (\<lambda>q. deltaE76 ?p q) (map rgb_to_lab palette_rgb)"
      let ?k = "unat (data pal ! y ! x)"
      from r yx have fm: "first_min ?d ?k" by blast
      then have k: "?k < length palette_rgb" by (simp add: first_min_def)
      from fm have "\<forall>j<length ?d. ?d ! ?k \<le> ?d ! j" unfolding first_min_def by blast
      with k have "\<forall>j<length palette_rgb.
          deltaE76 ?p (rgb_to_lab (palette_rgb ! ?k)) \<le> deltaE76 ?p (rgb_to_lab (palette_rgb ! j))"
        by simp
      with k show ?thesis by blast
    qed
    with r show ?thesis by blast
  qed
  from K total part show ?thesis by blast
qed

theorem posterize_diverse_nearest_palette_colour_witness:
  "rgb_well_formed example_image \<and>
   build_palette example_image 2 4 16 False = Inr [(200, 8, 8), (200, 8, 8)] \<and>
   (1::int) \<le> 400000 \<and> (2::int) \<le> 256 \<and>
   (\<exists>pal. posterize_diverse example_image 2 4 16 False 400000 = Some (Inr pal) \<and>
      well_formed pal \<and> height pal = 2 \<and> width pal = 2 \<and>
      unat (data pal ! 1 ! 0) < 2)"
proof -
  let ?pr = "[(200, 8, 8), (200, 8, 8)] :: rgb list"
  have h3: "(1::int) \<le> 400000" and h4: "(2::int) \<le> 256" by simp_all
  note t = posterize_diverse_nearest_palette_colour
         [OF rgb_well_formed_example build_palette_example h3]
  from t h4 obtain pal where
    a: "posterize_diverse example_image 2 4 16 False 400000 = Some (Inr pal)"
    by blast
  from t a have b: "well_formed pal" "height pal = img_h example_image"
      "width pal = img_w example_image"
    and c: "\<forall>y<img_h example_image. \<forall>x<img_w example_image.
              unat (data pal ! y ! x) < length ?pr \<and>
              (\<forall>j<length ?pr.
                 deltaE76 (rgb_to_lab (img_px example_image ! y ! x))
                          (rgb_to_lab (?pr ! unat (data pal ! y ! x)))
                 \<le> deltaE76 (rgb_to_lab (img_px example_image ! y ! x))
                            (rgb_to_lab (?pr ! j)))"
    by blast+
  have hw: "img_h example_image = 2" "img_w example_image = 2"
    by (simp_all add: example_image_def)
  have "(1::nat) < img_h example_image" "(0::nat) < img_w example_image"
    by (simp_all add: hw)
  with c have "unat (data pal ! 1 ! 0) < length ?pr" by blast
  then have d: "unat (data pal ! 1 ! 0) < 2" by simp
  from b hw have e: "height pal = 2" "width pal = 2" by simp_all
  from rgb_well_formed_example build_palette_example h3 h4 a b(1) e d
  show ?thesis by blast
qed

text \<open>
  Claim C9. Let \<open>palette_rgb\<close> be the palette the builder returns for a well-formed image
  and let the chunk size be positive. \<open>posterize_diverse\<close> returns an image whenever
  \<open>colors \<le> 256\<close>, and in every image it returns the index of a pixel is the smallest index
  among the palette colours at minimal distance from it: a palette colour at the same
  distance as the assigned one has an index at least as large, and every colour with a
  smaller index is strictly farther from the pixel. (\<^verbatim>\<open>np.argmin\<close> returns the first
  minimum; the \<^verbatim>\<open>uint8\<close> cast keeps it, since a returned image has a palette of at most 256
  colours.)
\<close>

theorem quantize_ties_lowest_index:
  assumes "rgb_well_formed img_np"
    and "build_palette img_np colors sample_step bucket refine = Inr palette_rgb"
    and "1 \<le> map_chunk"
  shows "(colors \<le> 256 \<longrightarrow>
            (\<exists>pal. posterize_diverse img_np colors sample_step bucket refine map_chunk
                     = Some (Inr pal))) \<and>
         (\<forall>pal. posterize_diverse img_np colors sample_step bucket refine map_chunk
                  = Some (Inr pal) \<longrightarrow>
            (\<forall>y<img_h img_np. \<forall>x<img_w img_np.
               unat (data pal ! y ! x) < length palette_rgb \<and>
               (\<forall>j<length palette_rgb.
                  deltaE76 (rgb_to_lab (img_px img_np ! y ! x))
                           (rgb_to_lab (palette_rgb ! unat (data pal ! y ! x)))
                  \<le> deltaE76 (rgb_to_lab (img_px img_np ! y ! x))
                             (rgb_to_lab (palette_rgb ! j))) \<and>
               (\<forall>j<length palette_rgb.
                  deltaE76 (rgb_to_lab (img_px img_np ! y ! x)) (rgb_to_lab (palette_rgb ! j))
                  = deltaE76 (rgb_to_lab (img_px img_np ! y ! x))
                             (rgb_to_lab (palette_rgb ! unat (data pal ! y ! x)))
                  \<longrightarrow> unat (data pal ! y ! x) \<le> j) \<and>
               (\<forall>j<unat (data pal ! y ! x).
                  deltaE76 (rgb_to_lab (img_px img_np ! y ! x))
                           (rgb_to_lab (palette_rgb ! unat (data pal ! y ! x)))
                  < deltaE76 (rgb_to_lab (img_px img_np ! y ! x))
                             (rgb_to_lab (palette_rgb ! j)))))"
proof -
  have total: "\<exists>pal. posterize_diverse img_np colors sample_step bucket refine map_chunk
                     = Some (Inr pal)"
    if "colors \<le> 256"
    using posterize_diverse_result [OF assms that] by blast
  have part: "unat (data pal ! y ! x) < length palette_rgb \<and>
               (\<forall>j<length palette_rgb.
                  deltaE76 (rgb_to_lab (img_px img_np ! y ! x))
                           (rgb_to_lab (palette_rgb ! unat (data pal ! y ! x)))
                  \<le> deltaE76 (rgb_to_lab (img_px img_np ! y ! x))
                             (rgb_to_lab (palette_rgb ! j))) \<and>
               (\<forall>j<length palette_rgb.
                  deltaE76 (rgb_to_lab (img_px img_np ! y ! x)) (rgb_to_lab (palette_rgb ! j))
                  = deltaE76 (rgb_to_lab (img_px img_np ! y ! x))
                             (rgb_to_lab (palette_rgb ! unat (data pal ! y ! x)))
                  \<longrightarrow> unat (data pal ! y ! x) \<le> j) \<and>
               (\<forall>j<unat (data pal ! y ! x).
                  deltaE76 (rgb_to_lab (img_px img_np ! y ! x))
                           (rgb_to_lab (palette_rgb ! unat (data pal ! y ! x)))
                  < deltaE76 (rgb_to_lab (img_px img_np ! y ! x))
                             (rgb_to_lab (palette_rgb ! j)))"
    if ret: "posterize_diverse img_np colors sample_step bucket refine map_chunk
               = Some (Inr pal)"
      and yx: "y < img_h img_np" "x < img_w img_np" for pal y x
  proof -
    let ?p = "rgb_to_lab (img_px img_np ! y ! x)"
    let ?d = "map (\<lambda>q. deltaE76 ?p q) (map rgb_to_lab palette_rgb)"
    let ?k = "unat (data pal ! y ! x)"
    from posterize_diverse_returned [OF assms ret] yx
    have fm: "first_min ?d ?k" by blast
    then have k: "?k < length palette_rgb" by (simp add: first_min_def)
    from fm have "\<forall>j<length ?d. ?d ! ?k \<le> ?d ! j" unfolding first_min_def by blast
    with k have le: "\<forall>j<length palette_rgb.
        deltaE76 ?p (rgb_to_lab (palette_rgb ! ?k)) \<le> deltaE76 ?p (rgb_to_lab (palette_rgb ! j))"
      by simp
    from fm have "\<forall>j<?k. ?d ! ?k < ?d ! j" unfolding first_min_def by blast
    with k have lt: "\<forall>j<?k.
        deltaE76 ?p (rgb_to_lab (palette_rgb ! ?k)) < deltaE76 ?p (rgb_to_lab (palette_rgb ! j))"
      by simp
    have tie: "?k \<le> j"
      if "deltaE76 ?p (rgb_to_lab (palette_rgb ! j))
            = deltaE76 ?p (rgb_to_lab (palette_rgb ! ?k))" for j
    proof (rule ccontr)
      assume "\<not> ?k \<le> j"
      then have "j < ?k" by simp
      with lt have "deltaE76 ?p (rgb_to_lab (palette_rgb ! ?k))
                      < deltaE76 ?p (rgb_to_lab (palette_rgb ! j))" by blast
      with that show False by simp
    qed
    from k le lt tie show ?thesis by blast
  qed
  from total part show ?thesis by blast
qed

theorem quantize_ties_lowest_index_witness:
  "rgb_well_formed example_image \<and>
   build_palette example_image 2 4 16 False = Inr [(200, 8, 8), (200, 8, 8)] \<and>
   (1::int) \<le> 400000 \<and>
   posterize_diverse example_image 2 4 16 False 400000 =
     Some (Inr \<lparr>height = 2, width = 2, data = [[0, 0], [0, 0]],
                palette = [200, 8, 8, 200, 8, 8] @ replicate 762 0\<rparr>) \<and>
   (1::nat) < img_h example_image \<and> (1::nat) < img_w example_image \<and>
   deltaE76 (rgb_to_lab (img_px example_image ! 1 ! 1)) (rgb_to_lab ([(200, 8, 8), (200, 8, 8)] ! 1))
     = deltaE76 (rgb_to_lab (img_px example_image ! 1 ! 1)) (rgb_to_lab ([(200, 8, 8), (200, 8, 8)] ! 0)) \<and>
   unat ([[0, 0], [0, 0 :: 8 word]] ! 1 ! 1) < 2"
proof -
  let ?pr = "[(200, 8, 8), (200, 8, 8)] :: rgb list"
  let ?pal = "\<lparr>height = 2, width = 2, data = [[0, 0], [0, 0 :: 8 word]],
                palette = [200, 8, 8, 200, 8, 8] @ replicate 762 0\<rparr>"
  have h3: "(1::int) \<le> 400000" by simp
  have hw: "(1::nat) < img_h example_image" "(1::nat) < img_w example_image"
    by (simp_all add: example_image_def)
  note t = quantize_ties_lowest_index
         [OF rgb_well_formed_example build_palette_example h3]
  have tie: "deltaE76 (rgb_to_lab (img_px example_image ! 1 ! 1)) (rgb_to_lab (?pr ! 1))
     = deltaE76 (rgb_to_lab (img_px example_image ! 1 ! 1)) (rgb_to_lab (?pr ! 0))"
    by simp
  from t posterize_diverse_example hw
  have "unat (data ?pal ! 1 ! 1) < length ?pr" by blast
  then have "unat ([[0, 0], [0, 0 :: 8 word]] ! 1 ! 1) < 2" by simp
  with rgb_well_formed_example build_palette_example h3 posterize_diverse_example hw tie
  show ?thesis by blast
qed

text \<open>
  Claim C6, as the code has it. A palette size below 2 is not an error: \<open>colors < 2\<close> is
  replaced by 2 (\<^verbatim>\<open>K = max(2, int(colors))\<close>), so the builder and the whole of
  \<open>posterize_diverse\<close> behave exactly as for \<open>colors = 2\<close>, and a palette that is returned
  has two entries.
\<close>

theorem posterize_diverse_clamps_colors:
  assumes "colors < 2"
  shows "build_palette img_np colors sample_step bucket refine
           = build_palette img_np 2 sample_step bucket refine \<and>
         posterize_diverse img_np colors sample_step bucket refine map_chunk
           = posterize_diverse img_np 2 sample_step bucket refine map_chunk \<and>
         (\<forall>palette_rgb. build_palette img_np colors sample_step bucket refine = Inr palette_rgb
            \<longrightarrow> length palette_rgb = 2)"
proof -
  from assms have m: "max 2 colors = 2" by simp
  have eq: "build_palette img_np colors sample_step bucket refine
           = build_palette img_np 2 sample_step bucket refine"
    by (simp add: build_palette_def Let_def m split: sum.splits)
  have "length palette_rgb = 2"
    if "build_palette img_np colors sample_step bucket refine = Inr palette_rgb"
    for palette_rgb
    using build_palette_length [OF that] m by simp
  with eq show ?thesis by (simp add: posterize_diverse_def)
qed

theorem posterize_diverse_clamps_colors_witness:
  "(0::int) < 2 \<and>
   build_palette example_image 0 4 16 False = Inr [(200, 8, 8), (200, 8, 8)] \<and>
   posterize_diverse example_image 0 4 16 False 400000 =
     Some (Inr \<lparr>height = 2, width = 2, data = [[0, 0], [0, 0]],
                palette = [200, 8, 8, 200, 8, 8] @ replicate 762 0\<rparr>)"
  using posterize_diverse_clamps_colors [of 0 example_image 4 16 False 400000]
  by (simp add: build_palette_example posterize_diverse_example)

text \<open>
  The claim C6 as stated fails: with \<open>colors = 1\<close> the builder raises nothing and returns
  a palette of two colours and a quantized image.
\<close>

theorem posterize_diverse_colors_1_no_error:
  "build_palette example_image 1 4 16 False = Inr [(200, 8, 8), (200, 8, 8)] \<and>
   posterize_diverse example_image 1 4 16 False 400000 =
     Some (Inr \<lparr>height = 2, width = 2, data = [[0, 0], [0, 0]],
                palette = [200, 8, 8, 200, 8, 8] @ replicate 762 0\<rparr>)"
proof -
  have eq: "build_palette example_image 1 4 16 False = build_palette example_image 2 4 16 False"
    by (simp add: build_palette_def Let_def split: sum.splits)
  moreover have "posterize_diverse example_image 1 4 16 False 400000
      = posterize_diverse example_image 2 4 16 False 400000"
    by (simp add: posterize_diverse_def eq)
  ultimately show ?thesis
    by (simp only: build_palette_example posterize_diverse_example)
qed

section \<open>Proofs: farthest-point selection in rounded arithmetic\<close>

lemma chroma_rounded_id: "chroma_rounded (\<lambda>x. x) = chroma"
proof
  fix c show "chroma_rounded (\<lambda>x. x) c = chroma c"
    by (cases c) (simp add: chroma_rounded_def chroma_def power2_eq_square)
qed

lemma deltaE76_rounded_id: "deltaE76_rounded (\<lambda>x. x) c c' = deltaE76 c c'"
  by (cases c; cases c') (simp add: deltaE76_rounded_def deltaE76_def Let_def)

lemma fp_loop_rounded_id: "fp_loop_rounded (\<lambda>x. x) cand_lab n st = fp_loop cand_lab n st"
proof (induction n arbitrary: st)
  case 0
  then show ?case by simp
next
  case (Suc n)
  obtain chosen dmin where st: "st = (chosen, dmin)" by (cases st)
  show ?case unfolding st by (simp add: Let_def deltaE76_rounded_id Suc.IH)
qed

lemma farthest_point_palette_rounded_id:
  "farthest_point_palette_rounded (\<lambda>x. x) cand_lab K = farthest_point_palette cand_lab K"
  by (simp add: farthest_point_palette_rounded_def farthest_point_palette_def Let_def
      chroma_rounded_id deltaE76_rounded_id fp_loop_rounded_id)

lemma deltaE76_rounded_self:
  assumes "rnd 0 = 0"
  shows "deltaE76_rounded rnd c c = 0"
  using assms by (cases c) (simp add: deltaE76_rounded_def)

lemma fp_loop_rounded_distinct:
  assumes zero: "rnd 0 = 0"
    and pos: "\<forall>i<length cand_lab. \<forall>j<length cand_lab.
                i \<noteq> j \<longrightarrow> 0 < deltaE76_rounded rnd (cand_lab ! i) (cand_lab ! j)"
  shows "fp_inv (length cand_lab) (chosen, dmin) \<Longrightarrow> length chosen + n \<le> length cand_lab \<Longrightarrow>
         distinct (fst (fp_loop_rounded rnd cand_lab n (chosen, dmin))) \<and>
         length (fst (fp_loop_rounded rnd cand_lab n (chosen, dmin))) = length chosen + n"
proof (induction n arbitrary: chosen dmin)
  case 0
  then show ?case by (simp add: fp_inv_def)
next
  case (Suc n)
  let ?N = "length cand_lab"
  define idx where "idx = argmax dmin"
  define dmin' where
    "dmin' = map2 min dmin (map (\<lambda>c. deltaE76_rounded rnd c (cand_lab ! idx)) cand_lab)"
  from Suc.prems(1) have len: "length dmin = ?N" and dc: "distinct chosen"
    and inr: "\<forall>i\<in>set chosen. i < ?N"
    and low: "\<And>i. i < ?N \<Longrightarrow> i \<in> set chosen \<Longrightarrow> dmin ! i \<le> 0"
    and high: "\<And>i. i < ?N \<Longrightarrow> i \<notin> set chosen \<Longrightarrow> 0 < dmin ! i"
    by (auto simp: fp_inv_def split: if_splits)
  have "card (set chosen) = length chosen" using dc by (rule distinct_card)
  with Suc.prems(2) have "card (set chosen) < ?N" by simp
  have "set chosen \<noteq> {..<?N}"
  proof
    assume "set chosen = {..<?N}"
    then have "card (set chosen) = ?N" by (simp only: card_lessThan)
    with \<open>card (set chosen) < ?N\<close> show False by simp
  qed
  moreover have "set chosen \<subseteq> {..<?N}" using inr by auto
  ultimately obtain i where i: "i < ?N" "i \<notin> set chosen" by blast
  have "dmin \<noteq> []" using len i(1) by auto
  then have fm: "first_max dmin idx" unfolding idx_def by (rule argmax_first_max)
  then have idxN: "idx < ?N" by (simp add: first_max_def len)
  from fm i(1) have "dmin ! i \<le> dmin ! idx" by (simp add: first_max_def len)
  with high [OF i] have "0 < dmin ! idx" by simp
  with low [OF idxN] have new: "idx \<notin> set chosen" by fastforce
  have len': "length dmin' = ?N" by (simp add: dmin'_def len)
  have cell: "dmin' ! j = min (dmin ! j) (deltaE76_rounded rnd (cand_lab ! j) (cand_lab ! idx))"
    if "j < ?N" for j
    using that by (simp add: dmin'_def len)
  have inv': "fp_inv ?N (chosen @ [idx], dmin')"
    unfolding fp_inv_def
  proof (simp only: prod.case, intro conjI allI impI)
    show "length dmin' = ?N" by (rule len')
    show "distinct (chosen @ [idx])" using dc new by simp
    show "\<forall>i\<in>set (chosen @ [idx]). i < ?N" using inr idxN by simp
    fix j assume j: "j < ?N"
    show "if j \<in> set (chosen @ [idx]) then dmin' ! j \<le> 0 else 0 < dmin' ! j"
    proof (cases "j = idx")
      case True
      then show ?thesis using cell [OF j] deltaE76_rounded_self [of rnd, OF zero] by simp
    next
      case False
      with pos j idxN have p: "0 < deltaE76_rounded rnd (cand_lab ! j) (cand_lab ! idx)" by blast
      show ?thesis
      proof (cases "j \<in> set chosen")
        case True
        with low [OF j] cell [OF j] show ?thesis by simp
      next
        case nin: False
        with high [OF j] p cell [OF j] False show ?thesis by simp
      qed
    qed
  qed
  have "length (chosen @ [idx]) + n \<le> ?N" using Suc.prems(2) by simp
  from Suc.IH [OF inv' this] show ?case
    by (simp add: idx_def dmin'_def Let_def)
qed

lemma farthest_point_palette_rounded_distinct:
  assumes zero: "rnd 0 = 0"
    and pos: "\<forall>i<length cand_lab. \<forall>j<length cand_lab.
                i \<noteq> j \<longrightarrow> 0 < deltaE76_rounded rnd (cand_lab ! i) (cand_lab ! j)"
    and K: "1 \<le> K" "K \<le> int (length cand_lab)"
  shows "\<exists>chosen. farthest_point_palette_rounded rnd cand_lab K = Inr chosen \<and>
           length chosen = nat K \<and> distinct chosen"
proof -
  let ?N = "length cand_lab"
  from K have ne: "cand_lab \<noteq> []" by auto
  define seed where "seed = argmax (map (chroma_rounded rnd) cand_lab)"
  define dmin where "dmin = map (\<lambda>c. deltaE76_rounded rnd c (cand_lab ! seed)) cand_lab"
  have "first_max (map (chroma_rounded rnd) cand_lab) seed"
    unfolding seed_def using ne by (intro argmax_first_max) simp
  then have seedN: "seed < ?N" by (simp add: first_max_def)
  have inv: "fp_inv ?N ([seed], dmin)"
    unfolding fp_inv_def
  proof (simp only: prod.case, intro conjI allI impI)
    show "length dmin = ?N" by (simp add: dmin_def)
    show "distinct [seed]" by simp
    show "\<forall>i\<in>set [seed]. i < ?N" using seedN by simp
    fix j assume j: "j < ?N"
    show "if j \<in> set [seed] then dmin ! j \<le> 0 else 0 < dmin ! j"
    proof (cases "j = seed")
      case True
      then show ?thesis using j deltaE76_rounded_self [of rnd, OF zero] by (simp add: dmin_def)
    next
      case False
      with pos j seedN have "0 < deltaE76_rounded rnd (cand_lab ! j) (cand_lab ! seed)" by blast
      with False j show ?thesis by (simp add: dmin_def)
    qed
  qed
  have "length [seed] + nat (K - 1) \<le> ?N" using K by simp
  from fp_loop_rounded_distinct [OF zero pos inv this]
  have "distinct (fst (fp_loop_rounded rnd cand_lab (nat (K - 1)) ([seed], dmin)))"
    "length (fst (fp_loop_rounded rnd cand_lab (nat (K - 1)) ([seed], dmin))) = nat K"
    using K by simp_all
  then show ?thesis
    using ne by (simp add: farthest_point_palette_rounded_def Let_def seed_def dmin_def)
qed

lemma round_half_even_of_int: "round_half_even (real_of_int n) = n"
  by (simp add: round_half_even_def)

lemma float64_zero: "float64 0 = 0"
  by (simp add: float64_def)

lemma two_powr_52: "(2::real) powr 52 = real_of_int (2 ^ 52)"
proof -
  have "(2::real) powr (real (52::nat)) = 2 ^ (52::nat)" by (rule powr_realpow) simp
  then show ?thesis by simp
qed

lemma float64_power_of_two:
  assumes "- 1022 \<le> k"
  shows "float64 (2 powr real_of_int k) = 2 powr real_of_int k"
    and "float64 (- (2 powr real_of_int k)) = - (2 powr real_of_int k)"
proof -
  let ?x = "2 powr real_of_int k :: real"
  let ?ulp = "2 powr (real_of_int k - 52) :: real"
  have pos: "0 < ?x" by simp
  have lg: "\<lfloor>log 2 \<bar>?x\<bar>\<rfloor> = k" by simp
  have e: "max \<lfloor>log 2 \<bar>?x\<bar>\<rfloor> (- 1022) = k" using assms by (simp only: lg)
  have q: "?x / ?ulp = real_of_int (2 ^ 52)"
  proof -
    have "?x / ?ulp = 2 powr (real_of_int k - (real_of_int k - 52))"
      by (simp only: powr_diff)
    also have "\<dots> = 2 powr 52" by simp
    finally show ?thesis by (simp only: two_powr_52)
  qed
  have undo: "real_of_int (2 ^ 52) * ?ulp = ?x"
  proof -
    have "real_of_int (2 ^ 52) * ?ulp = 2 powr 52 * ?ulp" by (simp only: two_powr_52)
    also have "\<dots> = 2 powr (52 + (real_of_int k - 52))" by (simp only: powr_add)
    finally show ?thesis by simp
  qed
  have "float64 ?x = real_of_int (round_half_even (?x / ?ulp)) * ?ulp"
    using pos unfolding float64_def Let_def e by simp
  then show "float64 ?x = ?x"
    by (simp only: q round_half_even_of_int undo)
  have lg': "\<bar>- ?x\<bar> = ?x" by simp
  have q': "- ?x / ?ulp = real_of_int (- (2 ^ 52))"
    using q by simp
  have e2: "max k (- 1022) = k" using assms by simp
  have "float64 (- ?x) = real_of_int (round_half_even (- ?x / ?ulp)) * ?ulp"
    using pos unfolding float64_def Let_def lg' by (simp add: e2)
  then have "float64 (- ?x) = real_of_int (- (2 ^ 52)) * ?ulp"
    by (simp only: q' round_half_even_of_int)
  also have "\<dots> = - (real_of_int (2 ^ 52) * ?ulp)" by simp
  finally show "float64 (- ?x) = - ?x" by (simp only: undo)
qed

lemma float64_underflow:
  assumes "k < - 1075"
  shows "float64 (2 powr real_of_int k) = 0"
proof -
  let ?x = "2 powr real_of_int k :: real"
  let ?ulp = "2 powr (- 1074) :: real"
  have lg: "\<lfloor>log 2 \<bar>?x\<bar>\<rfloor> = k" by simp
  have e: "max \<lfloor>log 2 \<bar>?x\<bar>\<rfloor> (- 1022) = - 1022" using assms by (simp only: lg)
  have q: "?x / ?ulp = 2 powr (real_of_int k + 1074)"
  proof -
    have "?x / ?ulp = 2 powr (real_of_int k - (- 1074))" by (simp only: powr_diff)
    then show ?thesis by simp
  qed
  have small: "2 powr (real_of_int k + 1074) < (1 / 2 :: real)"
  proof -
    have "real_of_int k + 1074 < - 1" using assms by simp
    then have "(2::real) powr (real_of_int k + 1074) < 2 powr (- 1)"
      by (rule powr_less_mono) simp
    moreover have "(2::real) powr (- 1) = 1 / 2" by (simp add: powr_minus_divide)
    ultimately show ?thesis by (simp only:)
  qed
  have fl: "\<lfloor>(2::real) powr (real_of_int k + 1074)\<rfloor> = 0"
    using small by (intro floor_unique) simp_all
  have r: "round_half_even (2 powr (real_of_int k + 1074)) = 0"
    using small by (simp add: round_half_even_def fl Let_def)
  have "float64 ?x = real_of_int (round_half_even (?x / 2 powr (real_of_int (- 1022) - 52))) *
          2 powr (real_of_int (- 1022) - 52)"
    unfolding float64_def Let_def e by simp
  also have "2 powr (real_of_int (- 1022) - 52) = ?ulp" by simp
  finally show ?thesis by (simp only: q r)
qed

text \<open>
  The counterexample to claim C10 as stated. The two candidates have different Lab
  coordinates, but in \<^verbatim>\<open>float64\<close> the square of their difference \<open>2 powr (-600)\<close> underflows
  to 0, so both nearest-chosen distances are 0 and index 0 is chosen twice.
\<close>

theorem farthest_point_palette_float64_repeats:
  "distinct [(0, 0, 0), (2 powr (- 600), 0, 0) :: lab] \<and>
   (2::int) \<le> int (length [(0, 0, 0), (2 powr (- 600), 0, 0) :: lab]) \<and>
   deltaE76_rounded float64 (2 powr (- 600), 0, 0) (0, 0, 0) = 0 \<and>
   farthest_point_palette_rounded float64 [(0, 0, 0), (2 powr (- 600), 0, 0)] 2 = Inr [0, 0] \<and>
   \<not> distinct [0, 0 :: nat]"
proof -
  have f1: "float64 (2 powr (- 600)) = 2 powr (- 600)"
    using float64_power_of_two(1) [of "- 600"] by simp
  have sq: "(2::real) powr (- 600) * 2 powr (- 600) = 2 powr real_of_int (- 1200)"
    by (simp flip: powr_add)
  have f2: "float64 (2 powr (- 600) * 2 powr (- 600)) = 0"
    unfolding sq by (rule float64_underflow) simp
  have d10: "deltaE76_rounded float64 (2 powr (- 600), 0, 0) (0, 0, 0) = 0"
    by (simp add: deltaE76_rounded_def Let_def float64_zero f1 f2)
  have d00: "deltaE76_rounded float64 (0, 0, 0) (0, 0, 0) = 0"
    by (rule deltaE76_rounded_self [of float64, OF float64_zero])
  have ch: "chroma_rounded float64 (0, 0, 0) = 0"
    "chroma_rounded float64 (2 powr (- 600), 0, 0) = 0"
    by (simp_all add: chroma_rounded_def float64_zero)
  have "farthest_point_palette_rounded float64 [(0, 0, 0), (2 powr (- 600), 0, 0)] 2
          = Inr [0, 0]"
    by (simp add: farthest_point_palette_rounded_def Let_def ch d10 d00 argmax_def)
  with d10 show ?thesis by simp
qed

text \<open>
  Claim C10, as the code has it. If every two different candidates have a positive
  computed distance (in whatever rounding \<open>rnd\<close> with \<open>rnd 0 = 0\<close>, \<open>float64\<close> in particular)
  and \<open>2 \<le> K \<le> length cand_lab\<close>, farthest-point selection returns \<open>K\<close> pairwise distinct
  indices. Pairwise distinct Lab coordinates alone do not give this.
\<close>

theorem farthest_point_palette_rounded_distinct_indices:
  assumes "rnd 0 = 0"
    and "\<forall>i<length cand_lab. \<forall>j<length cand_lab.
           i \<noteq> j \<longrightarrow> 0 < deltaE76_rounded rnd (cand_lab ! i) (cand_lab ! j)"
    and "2 \<le> K" and "K \<le> int (length cand_lab)"
  shows "\<exists>chosen. farthest_point_palette_rounded rnd cand_lab K = Inr chosen \<and>
           length chosen = nat K \<and> distinct chosen"
proof -
  from assms(3) have "1 \<le> K" by simp
  from farthest_point_palette_rounded_distinct [OF assms(1,2) this assms(4)]
  show ?thesis .
qed

theorem farthest_point_palette_rounded_distinct_indices_witness:
  "float64 0 = 0 \<and>
   0 < deltaE76_rounded float64 (0, 0, 0) (1, 0, 0) \<and>
   0 < deltaE76_rounded float64 (1, 0, 0) (0, 0, 0) \<and>
   (2::int) \<le> 2 \<and> (2::int) \<le> int (length [(0, 0, 0), (1, 0, 0) :: lab]) \<and>
   (\<exists>chosen. farthest_point_palette_rounded float64 [(0, 0, 0), (1, 0, 0)] 2 = Inr chosen \<and>
      length chosen = 2 \<and> distinct chosen)"
proof -
  let ?cand = "[(0, 0, 0), (1, 0, 0)] :: lab list"
  have one: "float64 1 = 1" "float64 (- 1) = - 1"
    using float64_power_of_two [of 0] by simp_all
  have d01: "deltaE76_rounded float64 (0, 0, 0) (1, 0, 0) = 1"
    by (simp add: deltaE76_rounded_def Let_def float64_zero one)
  have d10: "deltaE76_rounded float64 (1, 0, 0) (0, 0, 0) = 1"
    by (simp add: deltaE76_rounded_def Let_def float64_zero one)
  have pos: "\<forall>i<length ?cand. \<forall>j<length ?cand.
               i \<noteq> j \<longrightarrow> 0 < deltaE76_rounded float64 (?cand ! i) (?cand ! j)"
  proof (intro allI impI)
    fix i j assume "i < length ?cand" "j < length ?cand" "i \<noteq> j"
    then have "(i = 0 \<and> j = 1) \<or> (i = 1 \<and> j = 0)" by auto
    then show "0 < deltaE76_rounded float64 (?cand ! i) (?cand ! j)"
      using d01 d10 by auto
  qed
  have k: "(2::int) \<le> 2" "(2::int) \<le> int (length ?cand)" by simp_all
  from farthest_point_palette_rounded_distinct_indices [OF float64_zero pos k]
  obtain chosen where "farthest_point_palette_rounded float64 ?cand 2 = Inr chosen"
    "length chosen = nat 2" "distinct chosen"
    by blast
  then have "\<exists>chosen. farthest_point_palette_rounded float64 ?cand 2 = Inr chosen \<and>
      length chosen = 2 \<and> distinct chosen"
    by auto
  with float64_zero d01 d10 k show ?thesis by simp
qed

section \<open>Proofs: grid estimation and pipeline\<close>

lemma best_period_empty_range:
  "min hi (int (length strength)) < lo \<Longrightarrow> best_period strength lo hi = Inr 1"
  by (simp add: best_period_def)

lemma estimate_empty_range:
  assumes "min smax (int (width pal - 1)) < smin" "min smax (int (height pal - 1)) < smin"
  shows "estimate_grid_step_from_edges pal smin smax = Inr (1, 1)"
proof -
  have "length (col_strength pal) = width pal - 1" "length (row_strength pal) = height pal - 1"
    by (simp_all add: col_strength_def row_strength_def)
  with assms show ?thesis
    by (simp add: estimate_grid_step_from_edges_def best_period_empty_range)
qed

lemma block_size_stage_estimated:
  "block_size_stage pal smin smax None =
     (case estimate_grid_step_from_edges pal smin smax of
        Inl e \<Rightarrow> Inl e
      | Inr (sy, sx) \<Rightarrow>
          (case downscale_by_mode pal (max sy sx - 1) (max sy sx - 1) of
             Inl e \<Rightarrow> Inl e
           | Inr fixed \<Rightarrow> Inr (pal, (max sy sx - 1, max sy sx - 1), fixed)))"
  by (auto simp: block_size_stage_def max_def split: sum.splits prod.splits)

lemma block_size_stage_override:
  "block_size_stage pal smin smax (Some (sy, sx)) =
     (case downscale_by_mode pal sy sx of
        Inl e \<Rightarrow> Inl e
      | Inr fixed \<Rightarrow> Inr (pal, (sy, sx), fixed))"
  by (simp add: block_size_stage_def)

lemma block_size_stage_zero:
  assumes "min smax (int (width pal - 1)) < smin" "min smax (int (height pal - 1)) < smin"
  shows "block_size_stage pal smin smax None = Inl ZeroDivisionError"
  by (simp add: block_size_stage_estimated estimate_empty_range [OF assms]
      downscale_by_mode_def)

section \<open>Claims on the pipeline\<close>

text \<open>
  Claim C4. Let \<open>pal\<close> be the quantized image. Without an override, whenever grid estimation
  returns \<open>(sy, sx)\<close> the pipeline calls the downscaler with \<open>(m - 1, m - 1)\<close> for
  \<open>m = max sy sx\<close> and reports that pair (an estimation error is passed on); with an
  override \<open>(oy, ox)\<close> it calls the downscaler with \<open>(oy, ox)\<close> itself and reports
  \<open>(oy, ox)\<close>: no maximum, no subtraction.
\<close>

theorem fix_pixel_art_block_size_policy:
  assumes "posterize_diverse img_prep colors sample_step bucket refine 400000 = Some (Inr pal)"
  shows "fix_pixel_art img_prep colors smin smax sample_step bucket refine None =
           Some (case estimate_grid_step_from_edges pal smin smax of
                   Inl e \<Rightarrow> Inl e
                 | Inr (sy, sx) \<Rightarrow>
                     (case downscale_by_mode pal (max sy sx - 1) (max sy sx - 1) of
                        Inl e \<Rightarrow> Inl e
                      | Inr fixed \<Rightarrow> Inr (pal, (max sy sx - 1, max sy sx - 1), fixed))) \<and>
         fix_pixel_art img_prep colors smin smax sample_step bucket refine (Some (oy, ox)) =
           Some (case downscale_by_mode pal oy ox of
                   Inl e \<Rightarrow> Inl e
                 | Inr fixed \<Rightarrow> Inr (pal, (oy, ox), fixed))"
  using assms
  by (simp add: fix_pixel_art_def block_size_stage_estimated block_size_stage_override)

theorem fix_pixel_art_block_size_policy_witness:
  "posterize_diverse example_image 2 4 16 False 400000 =
     Some (Inr \<lparr>height = 2, width = 2, data = [[0, 0], [0, 0]],
                palette = [200, 8, 8, 200, 8, 8] @ replicate 762 0\<rparr>) \<and>
   fix_pixel_art example_image 2 2 64 4 16 False (Some (1, 2)) =
     Some (case downscale_by_mode
                  \<lparr>height = 2, width = 2, data = [[0, 0], [0, 0]],
                     palette = [200, 8, 8, 200, 8, 8] @ replicate 762 0\<rparr> 1 2 of
             Inl e \<Rightarrow> Inl e
           | Inr fixed \<Rightarrow>
               Inr (\<lparr>height = 2, width = 2, data = [[0, 0], [0, 0]],
                       palette = [200, 8, 8, 200, 8, 8] @ replicate 762 0\<rparr>, (1, 2), fixed))"
  using fix_pixel_art_block_size_policy [OF posterize_diverse_example, of 2 64 1 2]
    posterize_diverse_example
  by simp

text \<open>
  Claim C8. Whenever the period search range \<^verbatim>\<open>range(smin, min(smax, n) + 1)\<close> is empty
  for both edge-strength profiles of the quantized image, grid estimation returns
  \<open>(1, 1)\<close>, the pipeline turns it into \<open>(0, 0)\<close>, and the call without override ends in
  the \<^verbatim>\<open>ZeroDivisionError\<close> of \<open>downscale_by_mode\<close>. Such inputs exist: the \<open>2 \<times> 2\<close> test
  image with the default search range \<open>[2, 64]\<close> is one.
\<close>

theorem fix_pixel_art_empty_range_divides_by_zero:
  assumes "posterize_diverse img_prep colors sample_step bucket refine 400000 = Some (Inr pal)"
    and "min smax (int (length (col_strength pal))) < smin"
    and "min smax (int (length (row_strength pal))) < smin"
  shows "best_period (col_strength pal) smin smax = Inr 1 \<and>
         best_period (row_strength pal) smin smax = Inr 1 \<and>
         estimate_grid_step_from_edges pal smin smax = Inr (1, 1) \<and>
         downscale_by_mode pal 0 0 = Inl ZeroDivisionError \<and>
         fix_pixel_art img_prep colors smin smax sample_step bucket refine None
           = Some (Inl ZeroDivisionError)"
proof -
  have len: "length (col_strength pal) = width pal - 1"
    "length (row_strength pal) = height pal - 1"
    by (simp_all add: col_strength_def row_strength_def)
  have r: "min smax (int (width pal - 1)) < smin" "min smax (int (height pal - 1)) < smin"
    using assms(2,3) by (simp_all only: len)
  have "fix_pixel_art img_prep colors smin smax sample_step bucket refine None
           = Some (Inl ZeroDivisionError)"
    using assms(1) by (simp add: fix_pixel_art_def block_size_stage_zero [OF r])
  moreover have "downscale_by_mode pal 0 0 = Inl ZeroDivisionError"
    by (simp add: downscale_by_mode_def)
  ultimately show ?thesis
    using best_period_empty_range [OF assms(2)] best_period_empty_range [OF assms(3)]
      estimate_empty_range [OF r]
    by simp
qed

theorem fix_pixel_art_empty_range_divides_by_zero_witness:
  "posterize_diverse example_image 2 4 16 False 400000 =
     Some (Inr \<lparr>height = 2, width = 2, data = [[0, 0], [0, 0]],
                palette = [200, 8, 8, 200, 8, 8] @ replicate 762 0\<rparr>) \<and>
   min 64 (int (length (col_strength \<lparr>height = 2, width = 2, data = [[0, 0], [0, 0]],
                palette = [200, 8, 8, 200, 8, 8] @ replicate 762 0\<rparr>))) < (2::int) \<and>
   min 64 (int (length (row_strength \<lparr>height = 2, width = 2, data = [[0, 0], [0, 0]],
                palette = [200, 8, 8, 200, 8, 8] @ replicate 762 0\<rparr>))) < (2::int) \<and>
   fix_pixel_art example_image 2 2 64 4 16 False None = Some (Inl ZeroDivisionError)"
proof -
  let ?pal = "\<lparr>height = 2, width = 2, data = [[0, 0], [0, 0 :: 8 word]],
                palette = [200, 8, 8, 200, 8, 8] @ replicate 762 0\<rparr>"
  have c: "min 64 (int (length (col_strength ?pal))) < (2::int)"
    and r: "min 64 (int (length (row_strength ?pal))) < (2::int)"
    by (simp_all add: col_strength_def row_strength_def)
  from fix_pixel_art_empty_range_divides_by_zero [OF posterize_diverse_example c r]
  have "fix_pixel_art example_image 2 2 64 4 16 False None = Some (Inl ZeroDivisionError)"
    by blast
  with posterize_diverse_example c r show ?thesis by blast
qed

end
